theory Spec2Isabelle
  imports Complex_Main "HOL-Library.AList"
begin

section \<open>JavaScript strings and numbers\<close>

text \<open>
  A JavaScript string is modelled as a \<^typ>\<open>string\<close>: a list of characters, one
  per code unit, restricted to the 8-bit range. Case mapping (\<open>toLowerCase\<close>,
  \<open>toUpperCase\<close>) is modelled on the ASCII letters and leaves every other
  character alone. A JavaScript \<open>number\<close> of the data model (innings, outs, scores,
  jersey numbers, lengths) is an \<^typ>\<open>int\<close>: these values are read with
  \<open>Number.parseInt\<close> from digit strings, so \<open>Math.floor\<close> and
  \<open>Number.isFinite\<close> act on them as the identity and as \<open>true\<close>.
\<close>

definition is_space :: "char \<Rightarrow> bool" where
  \<comment> \<open>The class \<open>\s\<close>: TAB, LF, VT, FF, CR, space and the no-break space.\<close>
  "is_space c = (c = CHR 0x09 \<or> c = CHR 0x0A \<or> c = CHR 0x0B \<or> c = CHR 0x0C \<or>
                 c = CHR 0x0D \<or> c = CHR 0x20 \<or> c = CHR 0xA0)"

definition is_digit :: "char \<Rightarrow> bool" where
  "is_digit c = (let n = (of_char c :: int) in 48 \<le> n \<and> n \<le> 57)"

definition is_upper :: "char \<Rightarrow> bool" where
  "is_upper c = (let n = (of_char c :: int) in 65 \<le> n \<and> n \<le> 90)"

definition is_lower :: "char \<Rightarrow> bool" where
  "is_lower c = (let n = (of_char c :: int) in 97 \<le> n \<and> n \<le> 122)"

definition is_alpha :: "char \<Rightarrow> bool" where
  "is_alpha c = (is_upper c \<or> is_lower c)"

definition is_word :: "char \<Rightarrow> bool" where
  \<comment> \<open>The class \<open>\w\<close>.\<close>
  "is_word c = (is_alpha c \<or> is_digit c \<or> c = CHR ''_'')"

definition lower_char :: "char \<Rightarrow> char" where
  "lower_char c = (if is_upper c then char_of (of_char c + (32::int)) else c)"

definition upper_char :: "char \<Rightarrow> char" where
  "upper_char c = (if is_lower c then char_of (of_char c - (32::int)) else c)"

text \<open>
  The same classes read off the bits of a character (least significant bit first), as
  code equations: they make the evaluation of the examples fast.
\<close>

lemma is_digit_bits [code]:
  "is_digit (Char b0 b1 b2 b3 b4 b5 b6 b7) =
     (\<not> b7 \<and> \<not> b6 \<and> b5 \<and> b4 \<and> \<not> (b3 \<and> (b2 \<or> b1)))"
  by (cases b0; cases b1; cases b2; cases b3; cases b4; cases b5; cases b6; cases b7;
      simp add: is_digit_def)


lemma is_lower_bits [code]:
  "is_lower (Char b0 b1 b2 b3 b4 b5 b6 b7) =
     (\<not> b7 \<and> b6 \<and> b5 \<and> (b0 \<or> b1 \<or> b2 \<or> b3 \<or> b4) \<and>
      \<not> (b4 \<and> b3 \<and> (b2 \<or> (b1 \<and> b0))))"
  by (cases b0; cases b1; cases b2; cases b3; cases b4; cases b5; cases b6; cases b7;
      simp add: is_lower_def)

lemma is_space_bits [code]:
  "is_space (Char b0 b1 b2 b3 b4 b5 b6 b7) =
     ((\<not> b7 \<and> \<not> b6 \<and> \<not> b5 \<and> \<not> b4 \<and> b3 \<and>
         ((\<not> b2 \<and> (b1 \<or> b0)) \<or> (b2 \<and> \<not> b1))) \<or>
      (\<not> b6 \<and> b5 \<and> \<not> b4 \<and> \<not> b3 \<and> \<not> b2 \<and> \<not> b1 \<and> \<not> b0))"
  by (cases b0; cases b1; cases b2; cases b3; cases b4; cases b5; cases b6; cases b7;
      simp add: is_space_def)

lemma lower_char_bits [code]:
  "lower_char (Char b0 b1 b2 b3 b4 b5 b6 b7) =
     (if is_upper (Char b0 b1 b2 b3 b4 b5 b6 b7) then Char b0 b1 b2 b3 b4 True b6 b7
      else Char b0 b1 b2 b3 b4 b5 b6 b7)"
  by (cases b0; cases b1; cases b2; cases b3; cases b4; cases b5; cases b6; cases b7;
      simp add: lower_char_def is_upper_def char_of_def)

lemma upper_char_bits [code]:
  "upper_char (Char b0 b1 b2 b3 b4 b5 b6 b7) =
     (if is_lower (Char b0 b1 b2 b3 b4 b5 b6 b7) then Char b0 b1 b2 b3 b4 False b6 b7
      else Char b0 b1 b2 b3 b4 b5 b6 b7)"
  by (cases b0; cases b1; cases b2; cases b3; cases b4; cases b5; cases b6; cases b7;
      simp add: upper_char_def is_lower_def char_of_def)

definition toLowerCase :: "string \<Rightarrow> string" where
  "toLowerCase s = map lower_char s"

definition toUpperCase :: "string \<Rightarrow> string" where
  "toUpperCase s = map upper_char s"

definition trimStart :: "string \<Rightarrow> string" where
  "trimStart s = dropWhile is_space s"

definition trimEnd :: "string \<Rightarrow> string" where
  "trimEnd s = rev (dropWhile is_space (rev s))"

definition trim :: "string \<Rightarrow> string" where
  "trim s = trimEnd (trimStart s)"

fun replace_runs :: "(char \<Rightarrow> bool) \<Rightarrow> char \<Rightarrow> bool \<Rightarrow> string \<Rightarrow> string" where
  \<comment> \<open>\<open>.replace(/[class]+/g, r)\<close>: every maximal run of the class becomes one \<open>r\<close>. The
     flag says that the character before was of the class, already replaced.\<close>
  "replace_runs p r b [] = []"
| "replace_runs p r b (c # cs) =
     (if p c then (if b then replace_runs p r True cs else r # replace_runs p r True cs)
      else c # replace_runs p r False cs)"

definition collapse_spaces :: "string \<Rightarrow> string" where
  \<comment> \<open>\<open>.replace(/\s+/g, " ")\<close>\<close>
  "collapse_spaces s = replace_runs is_space (CHR '' '') False s"

fun join :: "string \<Rightarrow> string list \<Rightarrow> string" where
  "join sep [] = []"
| "join sep [x] = x"
| "join sep (x # y # ys) = x @ sep @ join sep (y # ys)"

fun tokens :: "(char \<Rightarrow> bool) \<Rightarrow> string \<Rightarrow> string list" where
  \<comment> \<open>The maximal runs of characters that are no separators, in order: a character that
     is no separator is a token of its own before a separator or the end, and otherwise
     it is put in front of the token that follows.\<close>
  "tokens sep [] = []"
| "tokens sep (c # cs) =
     (if sep c then tokens sep cs
      else if cs = [] \<or> sep (hd cs) then [c] # tokens sep cs
      else (case tokens sep cs of w # ws \<Rightarrow> (c # w) # ws | [] \<Rightarrow> [[c]]))"

definition digit_char :: "nat \<Rightarrow> char" where
  "digit_char d = char_of (48 + int d)"

fun nat_to_string :: "nat \<Rightarrow> string" where
  "nat_to_string n =
     (if n < 10 then [digit_char n] else nat_to_string (n div 10) @ [digit_char (n mod 10)])"

definition int_to_string :: "int \<Rightarrow> string" where
  \<comment> \<open>\<open>String(value)\<close> on an integer.\<close>
  "int_to_string i = (if i < 0 then CHR ''-'' # nat_to_string (nat (- i)) else nat_to_string (nat i))"

definition digit_val :: "char \<Rightarrow> nat" where
  "digit_val c = nat (of_char c - (48::int))"

definition parse_digits :: "string \<Rightarrow> nat" where
  \<comment> \<open>\<open>Number.parseInt(ds, 10)\<close> on a non-empty string of digits.\<close>
  "parse_digits ds = foldl (\<lambda>acc c. 10 * acc + digit_val c) 0 ds"

section \<open>Regular expressions\<close>

text \<open>
  The regular expressions of the source are kept as data and run by a backtracking
  matcher. A matcher state holds the character before the current position (none at
  the start of the input), the input still to be read, and the text of the capture
  groups closed so far. \<open>rx_run r st\<close> lists, in the order in which a backtracking
  engine tries them, the states in which a match of \<open>r\<close> that starts in state
  \<open>st\<close> can stop; the head of the list is the match the engine reports. Quantifiers
  are greedy and apply to character classes, which is all the source uses.
\<close>

datatype rx =
    Lit string
  | LitI string
  | Cls "char \<Rightarrow> bool"
  | Star "char \<Rightarrow> bool"
  | Plus "char \<Rightarrow> bool"
  | Opt rx
  | Alt rx rx
  | Seq rx rx
  | WordB
  | Bol
  | Eol
  | NotAhead rx
  | Grp nat rx

type_synonym caps = "(nat \<times> string) list"

type_synonym mstate = "char option \<times> string \<times> caps"

fun lit_run ::
  "(char \<Rightarrow> char) \<Rightarrow> string \<Rightarrow> char option \<Rightarrow> string \<Rightarrow> (char option \<times> string) option" where
  \<comment> \<open>Reads the literal \<open>w\<close>, each input character seen through \<open>f\<close>.\<close>
  "lit_run f [] prev rest = Some (prev, rest)"
| "lit_run f (a # w) prev [] = None"
| "lit_run f (a # w) prev (c # cs) = (if f c = a then lit_run f w (Some c) cs else None)"

fun class_runs :: "(char \<Rightarrow> bool) \<Rightarrow> char option \<Rightarrow> string \<Rightarrow> (char option \<times> string) list" where
  \<comment> \<open>The positions after 0, 1, 2, ... characters of the class, as far as the class goes.\<close>
  "class_runs p prev [] = [(prev, [])]"
| "class_runs p prev (c # cs) = (prev, c # cs) # (if p c then class_runs p (Some c) cs else [])"

definition word_before :: "char option \<Rightarrow> bool" where
  "word_before prev = (case prev of None \<Rightarrow> False | Some c \<Rightarrow> is_word c)"

definition word_after :: "string \<Rightarrow> bool" where
  "word_after rest = (case rest of [] \<Rightarrow> False | c # cs \<Rightarrow> is_word c)"

fun rx_run :: "rx \<Rightarrow> mstate \<Rightarrow> mstate list" where
  "rx_run (Lit w) (prev, rest, cs) =
     (case lit_run (\<lambda>c. c) w prev rest of None \<Rightarrow> [] | Some (p, r) \<Rightarrow> [(p, r, cs)])"
| "rx_run (LitI w) (prev, rest, cs) =
     (case lit_run lower_char w prev rest of None \<Rightarrow> [] | Some (p, r) \<Rightarrow> [(p, r, cs)])"
| "rx_run (Cls p) (prev, rest, cs) =
     (case rest of [] \<Rightarrow> [] | c # r \<Rightarrow> if p c then [(Some c, r, cs)] else [])"
| "rx_run (Star p) (prev, rest, cs) =
     map (\<lambda>(q, r). (q, r, cs)) (rev (class_runs p prev rest))"
| "rx_run (Plus p) (prev, rest, cs) =
     map (\<lambda>(q, r). (q, r, cs)) (rev (tl (class_runs p prev rest)))"
| "rx_run (Opt r) st = rx_run r st @ [st]"
| "rx_run (Alt a b) st = rx_run a st @ rx_run b st"
| "rx_run (Seq a b) st = concat (map (\<lambda>st'. rx_run b st') (rx_run a st))"
| "rx_run WordB (prev, rest, cs) =
     (if word_before prev \<noteq> word_after rest then [(prev, rest, cs)] else [])"
| "rx_run Bol (prev, rest, cs) = (if prev = None then [(prev, rest, cs)] else [])"
| "rx_run Eol (prev, rest, cs) = (if rest = [] then [(prev, rest, cs)] else [])"
| "rx_run (NotAhead r) st = (if rx_run r st = [] then [st] else [])"
| "rx_run (Grp g r) (prev, rest, cs) =
     map (\<lambda>(q, rest', cs'). (q, rest', (g, take (length rest - length rest') rest) # cs'))
         (rx_run r (prev, rest, cs))"

definition rx_at :: "rx \<Rightarrow> char option \<Rightarrow> string \<Rightarrow> mstate option" where
  \<comment> \<open>The match of \<open>r\<close> that starts at the current position, if there is one.\<close>
  "rx_at r prev rest = (case rx_run r (prev, rest, []) of [] \<Rightarrow> None | m # ms \<Rightarrow> Some m)"

fun rx_search :: "rx \<Rightarrow> nat \<Rightarrow> char option \<Rightarrow> string \<Rightarrow> (nat \<times> mstate) option" where
  \<comment> \<open>The leftmost match at or after the current position \<open>i\<close>, with its start index.\<close>
  "rx_search r i prev [] = (case rx_at r prev [] of None \<Rightarrow> None | Some m \<Rightarrow> Some (i, m))"
| "rx_search r i prev (c # cs) =
     (case rx_at r prev (c # cs) of
        Some m \<Rightarrow> Some (i, m)
      | None \<Rightarrow> rx_search r (Suc i) (Some c) cs)"

definition rx_exec :: "rx \<Rightarrow> string \<Rightarrow> (nat \<times> mstate) option" where
  \<comment> \<open>\<open>s.match(r)\<close> without the g flag: the leftmost match, with its index.\<close>
  "rx_exec r s = rx_search r 0 None s"

definition rx_test :: "rx \<Rightarrow> string \<Rightarrow> bool" where
  \<comment> \<open>\<open>r.test(s)\<close>\<close>
  "rx_test r s = (rx_exec r s \<noteq> None)"

fun rx_count_from :: "rx \<Rightarrow> nat \<Rightarrow> char option \<Rightarrow> string \<Rightarrow> nat" where
  \<comment> \<open>Counts the successive matches; \<open>skip\<close> characters still belong to the match before.
     After a match of \<open>n\<close> characters the search resumes \<open>n\<close> characters on, and one
     character on after an empty match.\<close>
  "rx_count_from r skip prev [] =
     (if skip = 0 \<and> rx_at r prev [] \<noteq> None then 1 else 0)"
| "rx_count_from r (Suc k) prev (c # cs) = rx_count_from r k (Some c) cs"
| "rx_count_from r 0 prev (c # cs) =
     (case rx_at r prev (c # cs) of
        None \<Rightarrow> rx_count_from r 0 (Some c) cs
      | Some (q, rest', cs') \<Rightarrow>
          Suc (rx_count_from r (length (c # cs) - length rest' - 1) (Some c) cs))"

definition rx_count :: "rx \<Rightarrow> string \<Rightarrow> nat" where
  \<comment> \<open>\<open>(s.match(r) ?? []).length\<close> with the g flag\<close>
  "rx_count r s = rx_count_from r 0 None s"

definition group :: "caps \<Rightarrow> nat \<Rightarrow> string" where
  \<comment> \<open>The text of capture group \<open>g\<close>.\<close>
  "group cs g = (case map_of cs g of Some t \<Rightarrow> t | None \<Rightarrow> [])"

definition word_rx :: "string \<Rightarrow> rx" where
  \<comment> \<open>\<open>\bw\b\<close>\<close>
  "word_rx w = Seq WordB (Seq (Lit w) WordB)"

definition word_rxi :: "string \<Rightarrow> rx" where
  \<comment> \<open>\<open>\bw\b\<close> under the i flag, \<open>w\<close> given in lower case\<close>
  "word_rxi w = Seq WordB (Seq (LitI w) WordB)"

fun alts :: "rx list \<Rightarrow> rx" where
  "alts [] = NotAhead (Lit [])"
| "alts [r] = r"
| "alts (r # rs) = Alt r (alts rs)"

fun seqs :: "rx list \<Rightarrow> rx" where
  "seqs [] = Lit []"
| "seqs [r] = r"
| "seqs (r # rs) = Seq r (seqs rs)"

section \<open>Text utilities (src/utils/text.ts)\<close>

text \<open>
  \<open>cleanText\<close> decodes HTML entities with the library function \<open>he.decode\<close>, which
  is not part of the repository. The model takes it as the parameter \<open>dec\<close>; every
  theorem below holds for any such function.
\<close>

definition cleanText :: "(string \<Rightarrow> string) \<Rightarrow> string \<Rightarrow> string" where
  "cleanText dec v =
     (if v = [] then []
      else trim (collapse_spaces (map (\<lambda>c. if c = CHR 0xA0 then CHR '' '' else c) (dec v))))"

definition cleanTextOpt :: "(string \<Rightarrow> string) \<Rightarrow> string option \<Rightarrow> string" where
  \<comment> \<open>\<open>cleanText\<close> on \<open>string | null | undefined\<close>\<close>
  "cleanTextOpt dec v = (case v of None \<Rightarrow> [] | Some t \<Rightarrow> cleanText dec t)"

section \<open>The live play feed (src/pipelines/live-play-feed.ts)\<close>

datatype half = Top | Bottom

fun half_string :: "half \<Rightarrow> string" where
  "half_string Top = ''top''"
| "half_string Bottom = ''bottom''"

record LivePlayEvent =
  lp_key :: string
  lp_order :: int
  lp_inning :: "int option"
  lp_half :: "half option"
  lp_isSubstitution :: bool
  lp_text :: string
  lp_scoringDecision :: "string option"
  lp_batter :: "string option"
  lp_pitcher :: "string option"
  lp_outs :: "int option"
  lp_sectionTitle :: string

record LiveSituation =
  sit_outs :: "int option"
  sit_pitcherName :: "string option"
  sit_pitchCount :: "int option"

record LiveSummary =
  sm_statusText :: "string option"
  sm_visitorTeam :: string
  sm_homeTeam :: string
  sm_visitorScore :: "int option"
  sm_homeScore :: "int option"
  sm_situation :: "LiveSituation option"

record DerivedPlayState =
  awayScore :: "int option"
  homeScore :: "int option"
  outsAfterPlay :: "int option"

datatype side = Away | Home

fun inferBattingSide :: "LivePlayEvent \<Rightarrow> side option" where
  "inferBattingSide play =
     (if lp_half play = Some Top then Some Away
      else if lp_half play = Some Bottom then Some Home
      else None)"

definition isSameHalfInning :: "LivePlayEvent \<Rightarrow> LivePlayEvent \<Rightarrow> bool" where
  "isSameHalfInning a b =
     (lp_inning a \<noteq> None \<and> lp_inning b \<noteq> None \<and> lp_inning a = lp_inning b \<and>
      lp_half a \<noteq> None \<and> lp_half a = lp_half b)"

definition parseRbiCount :: "(string \<Rightarrow> string) \<Rightarrow> string option \<Rightarrow> nat option" where
  "parseRbiCount dec v =
     (case v of
        None \<Rightarrow> None
      | Some raw \<Rightarrow>
          if raw = [] then None
          else
            let t = cleanText dec raw in
            (case rx_exec (seqs [Grp 1 (Plus is_digit), Star is_space, LitI ''rbi'']) t of
               Some (i, q, r, cs) \<Rightarrow> Some (parse_digits (group cs 1))
             | None \<Rightarrow> if rx_test (word_rxi ''rbi'') t then Some 1 else None))"

definition orZero :: "nat option \<Rightarrow> nat" where
  \<comment> \<open>\<open>x ?? 0\<close>\<close>
  "orZero x = (case x of None \<Rightarrow> 0 | Some n \<Rightarrow> n)"

definition estimateRunsScoredOnPlay :: "(string \<Rightarrow> string) \<Rightarrow> LivePlayEvent \<Rightarrow> nat" where
  "estimateRunsScoredOnPlay dec play =
     (if lp_isSubstitution play then 0
      else
        let t = cleanText dec (lp_text play);
            scoredMentions = rx_count (word_rxi ''scored'') t;
            rbiFromDecision = parseRbiCount dec (lp_scoringDecision play);
            rbiFromText = parseRbiCount dec (Some t);
            runs = max scoredMentions (max (orZero rbiFromDecision) (orZero rbiFromText))
        in if runs = 0 \<and> rx_test (Alt (word_rxi ''homered'') (word_rxi ''home run'')) t
           then 1 else runs)"

definition out_keywords :: rx where
  "out_keywords =
     alts [word_rxi ''struck out'', word_rxi ''lined out'', word_rxi ''grounded out'',
           word_rxi ''flied out'', word_rxi ''fouled out'', word_rxi ''popped out'',
           word_rxi ''out'']"

definition estimateOutsRecordedOnPlay :: "(string \<Rightarrow> string) \<Rightarrow> string \<Rightarrow> nat" where
  "estimateOutsRecordedOnPlay dec t =
     (let normalized = cleanText dec t in
      if normalized = [] then 0
      else if rx_test (word_rxi ''triple play'') normalized then 3
      else if rx_test (word_rxi ''double play'') normalized then 2
      else
        let outAtMentions =
              rx_count (word_rxi ''out at'') normalized +
              rx_count (word_rxi ''out on the play'') normalized
        in if outAtMentions > 0 then outAtMentions
           else if rx_test out_keywords normalized then 1
           else 0)"

definition clampOuts :: "int \<Rightarrow> int" where
  "clampOuts v = max 0 (min 3 v)"

subsection \<open>deriveLivePlayStates\<close>

text \<open>
  The source keeps one mutable state object per play key in a \<open>Map\<close> and reaches it
  only through \<open>states.get(play.key)\<close>; the model is the map from keys to states,
  updated at the key. Each \<open>for\<close> loop is a fold over its index values, in the
  order in which the loop takes them.
\<close>

type_synonym states = "string \<rightharpoonup> DerivedPlayState"

definition initialStates :: "LivePlayEvent list \<Rightarrow> LiveSummary \<Rightarrow> states" where
  "initialStates plays summary =
     fold (\<lambda>play m. m(lp_key play \<mapsto>
             \<lparr>awayScore = sm_visitorScore summary, homeScore = sm_homeScore summary,
              outsAfterPlay = lp_outs play\<rparr>)) plays Map.empty"

definition scoreStep ::
  "(string \<Rightarrow> string) \<Rightarrow> LivePlayEvent list \<Rightarrow> nat \<Rightarrow>
   int option \<times> int option \<times> states \<Rightarrow> int option \<times> int option \<times> states" where
  "scoreStep dec plays index acc =
     (case acc of (away, home, m) \<Rightarrow>
        let play = plays ! index in
        (case m (lp_key play) of
           None \<Rightarrow> (away, home, m)
         | Some st \<Rightarrow>
             let m' = m(lp_key play \<mapsto> st\<lparr>awayScore := away, homeScore := home\<rparr>);
                 runsScored = estimateRunsScoredOnPlay dec play;
                 battingSide = inferBattingSide play
             in if runsScored > 0 \<and> battingSide = Some Away \<and> away \<noteq> None
                then (Some (max 0 (the away - int runsScored)), home, m')
                else if runsScored > 0 \<and> battingSide = Some Home \<and> home \<noteq> None
                then (away, Some (max 0 (the home - int runsScored)), m')
                else (away, home, m')))"

definition outsStep ::
  "(string \<Rightarrow> string) \<Rightarrow> LivePlayEvent list \<Rightarrow> nat \<Rightarrow> states \<Rightarrow> states" where
  "outsStep dec plays index m =
     (let play = plays ! index;
          nextPlay = (if Suc index < length plays then Some (plays ! Suc index) else None)
      in case m (lp_key play) of
           None \<Rightarrow> m
         | Some st \<Rightarrow>
             if nextPlay \<noteq> None \<and> isSameHalfInning play (the nextPlay) \<and>
                lp_outs (the nextPlay) \<noteq> None
             then m(lp_key play \<mapsto> st\<lparr>outsAfterPlay := Some (clampOuts (the (lp_outs (the nextPlay))))\<rparr>)
             else if nextPlay \<noteq> None \<and> \<not> isSameHalfInning play (the nextPlay)
             then m(lp_key play \<mapsto> st\<lparr>outsAfterPlay := Some 3\<rparr>)
             else if lp_outs play \<noteq> None
             then m(lp_key play \<mapsto> st\<lparr>outsAfterPlay :=
                      Some (clampOuts (the (lp_outs play) +
                                       int (estimateOutsRecordedOnPlay dec (lp_text play))))\<rparr>)
             else m(lp_key play \<mapsto> st\<lparr>outsAfterPlay := None\<rparr>))"

definition deriveLivePlayStates ::
  "(string \<Rightarrow> string) \<Rightarrow> LivePlayEvent list \<Rightarrow> LiveSummary \<Rightarrow> states" where
  "deriveLivePlayStates dec plays summary =
     (let states0 = initialStates plays summary;
          scored = fold (scoreStep dec plays) (rev [0 ..< length plays])
                     (sm_visitorScore summary, sm_homeScore summary, states0)
      in fold (outsStep dec plays) [0 ..< length plays] (snd (snd scored)))"

subsection \<open>Tweet text\<close>

definition js_rem :: "int \<Rightarrow> int \<Rightarrow> int" where
  \<comment> \<open>The operator \<open>%\<close>: the remainder takes the sign of the dividend.\<close>
  "js_rem a b = sgn a * (\<bar>a\<bar> mod \<bar>b\<bar>)"

definition ordinal :: "int \<Rightarrow> string" where
  "ordinal v =
     (let mod10 = js_rem v 10; mod100 = js_rem v 100 in
      if mod10 = 1 \<and> mod100 \<noteq> 11 then int_to_string v @ ''st''
      else if mod10 = 2 \<and> mod100 \<noteq> 12 then int_to_string v @ ''nd''
      else if mod10 = 3 \<and> mod100 \<noteq> 13 then int_to_string v @ ''rd''
      else int_to_string v @ ''th'')"

definition capitalize :: "string \<Rightarrow> string" where
  "capitalize v = (case v of [] \<Rightarrow> [] | c # cs \<Rightarrow> upper_char c # toLowerCase cs)"

definition buildInningLabel ::
  "(string \<Rightarrow> string) \<Rightarrow> LivePlayEvent \<Rightarrow> int option \<Rightarrow> LiveSummary \<Rightarrow> string" where
  "buildInningLabel dec play outsAfter summary =
     (if lp_inning play \<noteq> None \<and> lp_half play \<noteq> None \<and> outsAfter = Some 3 \<and>
         \<not> lp_isSubstitution play
      then (if lp_half play = Some Top then ''Mid'' else ''End'') @ '' '' @
           ordinal (the (lp_inning play))
      else if lp_inning play \<noteq> None \<and> lp_half play \<noteq> None
      then capitalize (half_string (the (lp_half play))) @ '' '' @ ordinal (the (lp_inning play))
      else if lp_inning play \<noteq> None
      then ''Inning '' @ ordinal (the (lp_inning play))
      else let status = cleanTextOpt dec (sm_statusText summary)
           in if status \<noteq> [] then status else ''Live'')"

definition formatScore :: "int option \<Rightarrow> string" where
  "formatScore v = (case v of None \<Rightarrow> ''?'' | Some n \<Rightarrow> int_to_string n)"

definition formatOutsLabel :: "int option \<Rightarrow> string" where
  "formatOutsLabel v =
     (case v of
        None \<Rightarrow> ''Outs ?''
      | Some n \<Rightarrow> int_to_string n @ '' '' @ (if n = 1 then ''Out'' else ''Outs''))"

definition mid_or_end :: rx where
  \<comment> \<open>\<open>/^(Mid|End)\b/\<close>\<close>
  "mid_or_end = seqs [Bol, Alt (Lit ''Mid'') (Lit ''End''), WordB]"

definition formatHeaderLine :: "string \<Rightarrow> int option \<Rightarrow> string" where
  "formatHeaderLine inningLabel outs =
     (if rx_test mid_or_end inningLabel then inningLabel
      else inningLabel @ '' | '' @ formatOutsLabel outs)"

definition trimToTweetLength :: "string \<Rightarrow> int \<Rightarrow> string" where
  "trimToTweetLength t maxLength =
     (if int (length t) \<le> maxLength then t
      else trimEnd (take (nat (max 0 (maxLength - 3))) t) @ ''...'')"

definition clampTweetLength :: "int \<Rightarrow> int" where
  "clampTweetLength n = max 20 (min 280 n)"

definition name_char :: "char \<Rightarrow> bool" where
  \<comment> \<open>The class \<open>[A-Za-z'.-]\<close>\<close>
  "name_char c = (is_alpha c \<or> c = CHR 0x27 \<or> c = CHR ''.'' \<or> c = CHR ''-'')"

definition name_sep :: "char \<Rightarrow> bool" where
  \<comment> \<open>The class of hyphen, apostrophe and grave accent that \<open>formatNameToken\<close> splits at.\<close>
  "name_sep c = (c = CHR ''-'' \<or> c = CHR 0x27 \<or> c = CHR 0x60)"

fun split_spaces :: "bool \<Rightarrow> string \<Rightarrow> string \<Rightarrow> string list" where
  \<comment> \<open>\<open>.split(/\s+/)\<close>: the flag says that a separator is being skipped, \<open>cur\<close> is the field so far.\<close>
  "split_spaces b cur [] = [cur]"
| "split_spaces b cur (c # cs) =
     (if is_space c then (if b then split_spaces True cur cs else cur # split_spaces True [] cs)
      else split_spaces False (cur @ [c]) cs)"

fun split_keep :: "string \<Rightarrow> string \<Rightarrow> string list" where
  \<comment> \<open>\<open>.split(/([-'`])/)\<close>: the separators are kept as segments of their own.\<close>
  "split_keep cur [] = [cur]"
| "split_keep cur (c # cs) =
     (if name_sep c then cur # [c] # split_keep [] cs else split_keep (cur @ [c]) cs)"

definition formatNameToken :: "string \<Rightarrow> string" where
  "formatNameToken token =
     (if rx_test (seqs [Bol, Cls is_alpha, Lit ''.'', Eol]) token then toUpperCase token
      else if rx_test (seqs [Bol, alts [LitI ''jr'', LitI ''sr'', LitI ''ii'', LitI ''iii'',
                                        LitI ''iv'', LitI ''v''], Eol]) token
      then toUpperCase token
      else concat (map (\<lambda>segment.
             if segment = [] \<or> (length segment = 1 \<and> name_sep (hd segment)) then segment
             else let lower = toLowerCase segment in
                  if take 2 lower = ''mc'' \<and> length lower > 2
                  then ''Mc'' @ capitalize (drop 2 lower)
                  else capitalize lower) (split_keep [] token)))"

definition toTitleCasePersonName :: "(string \<Rightarrow> string) \<Rightarrow> string \<Rightarrow> string" where
  "toTitleCasePersonName dec v =
     trim (join '' '' (map formatNameToken (split_spaces False [] (cleanText dec v))))"

definition last_first :: rx where
  \<comment> \<open>\<open>/^([A-Za-z][A-Za-z'.-]+),\s*([A-Za-z][A-Za-z'.-]+)$/\<close>\<close>
  "last_first =
     seqs [Bol, Grp 1 (Seq (Cls is_alpha) (Plus name_char)), Lit '','', Star is_space,
           Grp 2 (Seq (Cls is_alpha) (Plus name_char)), Eol]"

definition normalizeDisplayName :: "(string \<Rightarrow> string) \<Rightarrow> string \<Rightarrow> string" where
  "normalizeDisplayName dec v =
     (let t = cleanText dec v in
      case rx_exec last_first t of
        None \<Rightarrow> toTitleCasePersonName dec t
      | Some (i, q, r, cs) \<Rightarrow>
          toTitleCasePersonName dec (group cs 2) @ '' '' @
          toTitleCasePersonName dec (group cs 1))"

definition orElse :: "'a option \<Rightarrow> 'a option \<Rightarrow> 'a option" where
  \<comment> \<open>The operator \<open>??\<close>\<close>
  "orElse a b = (case a of None \<Rightarrow> b | Some x \<Rightarrow> Some x)"

definition orDefault :: "'a option \<Rightarrow> 'a \<Rightarrow> 'a" where
  \<comment> \<open>The operator \<open>??\<close> with a default that is never null\<close>
  "orDefault a d = (case a of None \<Rightarrow> d | Some x \<Rightarrow> x)"

record BuildPlayTweetTextInput =
  pi_play :: LivePlayEvent
  pi_summary :: LiveSummary
  pi_stateAfterPlay :: "DerivedPlayState option"
  pi_maxLength :: "int option"
  pi_appendTag :: "string option"

record PitcherDecisions =
  pd_winning :: "string option"
  pd_save :: "string option"
  pd_losing :: "string option"

record BuildFinalTweetTextInput =
  fi_summary :: LiveSummary
  fi_pitcherDecisions :: "PitcherDecisions option"
  fi_maxLength :: "int option"
  fi_appendTag :: "string option"

text \<open>
  \<open>normalizeNamesInText\<close> rewrites the player names inside the play text; it only
  supplies the text of one block. The model takes it as the parameter \<open>nnit\<close>, so the
  statements about the tweet hold whatever text it returns.
\<close>

definition playTweetBlocks ::
  "(string \<Rightarrow> string) \<Rightarrow> (string \<Rightarrow> string option list \<Rightarrow> string) \<Rightarrow>
   BuildPlayTweetTextInput \<Rightarrow> string list" where
  "playTweetBlocks dec nnit input =
     (let play = pi_play input; summary = pi_summary input;
          outs = orElse (Option.bind (pi_stateAfterPlay input) outsAfterPlay)
                   (orElse (lp_outs play) (Option.bind (sm_situation summary) sit_outs));
          inningLabel = buildInningLabel dec play outs summary;
          pitcherName = normalizeDisplayName dec (cleanText dec
             (orDefault (orElse (lp_pitcher play)
                (Option.bind (sm_situation summary) sit_pitcherName)) []));
          pitchCount = Option.bind (sm_situation summary) sit_pitchCount;
          away = orElse (Option.bind (pi_stateAfterPlay input) awayScore) (sm_visitorScore summary);
          home = orElse (Option.bind (pi_stateAfterPlay input) homeScore) (sm_homeScore summary)
      in [formatHeaderLine inningLabel outs,
          cleanText dec (sm_visitorTeam summary) @ '' - '' @ formatScore away @ [CHR 0x0A] @
          cleanText dec (sm_homeTeam summary) @ '' - '' @ formatScore home,
          nnit (cleanText dec (lp_text play)) [lp_batter play, lp_pitcher play]]
         @ (if pitcherName \<noteq> [] \<and> pitchCount \<noteq> None
            then [''Pitching | '' @ pitcherName @ '' - P '' @ int_to_string (the pitchCount)]
            else [])
         @ (case pi_appendTag input of
              None \<Rightarrow> []
            | Some tag \<Rightarrow> if tag \<noteq> [] then [trim tag] else []))"

definition buildPlayTweetText ::
  "(string \<Rightarrow> string) \<Rightarrow> (string \<Rightarrow> string option list \<Rightarrow> string) \<Rightarrow>
   BuildPlayTweetTextInput \<Rightarrow> string" where
  "buildPlayTweetText dec nnit input =
     (let maxLength = clampTweetLength (orDefault (pi_maxLength input) 280)
      in trimToTweetLength
           (join [CHR 0x0A, CHR 0x0A] (filter (\<lambda>block. length block > 0) (playTweetBlocks dec nnit input)))
           maxLength)"

definition toOptionalFinalPitcherName :: "(string \<Rightarrow> string) \<Rightarrow> string option \<Rightarrow> string option" where
  "toOptionalFinalPitcherName dec v =
     (let normalized = normalizeDisplayName dec (cleanText dec (orDefault v []))
      in if length normalized > 0 then Some normalized else None)"

definition finalTweetLines :: "(string \<Rightarrow> string) \<Rightarrow> BuildFinalTweetTextInput \<Rightarrow> string list" where
  "finalTweetLines dec input =
     (let summary = fi_summary input;
          away = cleanText dec (sm_visitorTeam summary);
          home = cleanText dec (sm_homeTeam summary);
          winning = toOptionalFinalPitcherName dec (Option.bind (fi_pitcherDecisions input) pd_winning);
          save = toOptionalFinalPitcherName dec (Option.bind (fi_pitcherDecisions input) pd_save);
          losing = toOptionalFinalPitcherName dec (Option.bind (fi_pitcherDecisions input) pd_losing);
          decisionLines =
            (case winning of Some w \<Rightarrow> [''W - '' @ w] | None \<Rightarrow> []) @
            (case save of Some w \<Rightarrow> [''S - '' @ w] | None \<Rightarrow> []) @
            (case losing of Some w \<Rightarrow> [''L - '' @ w] | None \<Rightarrow> [])
      in [''Final'',
          away @ '' - '' @ formatScore (sm_visitorScore summary),
          home @ '' - '' @ formatScore (sm_homeScore summary)]
         @ (if length decisionLines > 0 then [] # decisionLines else [])
         @ (case fi_appendTag input of
              None \<Rightarrow> []
            | Some tag \<Rightarrow> if tag \<noteq> [] then [trim tag] else []))"

definition buildFinalTweetText :: "(string \<Rightarrow> string) \<Rightarrow> BuildFinalTweetTextInput \<Rightarrow> string" where
  "buildFinalTweetText dec input =
     (let maxLength = clampTweetLength (orDefault (fi_maxLength input) 280)
      in trimToTweetLength (join [CHR 0x0A] (finalTweetLines dec input)) maxLength)"

section \<open>Predicates used in the statements\<close>

definition score_in_range :: "int option \<Rightarrow> int option \<Rightarrow> bool" where
  \<comment> \<open>When the bound is a non-negative number, the score is a number from 0 to the bound.\<close>
  "score_in_range bound x =
     (\<forall>v. bound = Some v \<and> 0 \<le> v \<longrightarrow> (\<exists>a. x = Some a \<and> 0 \<le> a \<and> a \<le> v))"

definition outs_in_range :: "int option \<Rightarrow> bool" where
  "outs_in_range x = (x = None \<or> (\<exists>n. x = Some n \<and> 0 \<le> n \<and> n \<le> 3))"

definition scores_ok :: "LiveSummary \<Rightarrow> int option \<times> int option \<times> states \<Rightarrow> bool" where
  \<comment> \<open>The invariant of the backward pass: the running totals and every stored score are in range.\<close>
  "scores_ok summary acc =
     (case acc of (away, home, m) \<Rightarrow>
        score_in_range (sm_visitorScore summary) away \<and>
        score_in_range (sm_homeScore summary) home \<and>
        (\<forall>k st. m k = Some st \<longrightarrow>
           score_in_range (sm_visitorScore summary) (awayScore st) \<and>
           score_in_range (sm_homeScore summary) (homeScore st)))"

section \<open>Examples taken from the test suite\<close>

definition no_entities :: "string \<Rightarrow> string" where
  \<comment> \<open>\<open>he.decode\<close> on text without entities\<close>
  "no_entities s = s"

definition example_summary :: LiveSummary where
  "example_summary =
     \<lparr>sm_statusText = Some ''Top 6th'', sm_visitorTeam = ''Kent State'', sm_homeTeam = ''#1 LSU'',
      sm_visitorScore = Some 7, sm_homeScore = Some 10,
      sm_situation = Some \<lparr>sit_outs = None, sit_pitcherName = None, sit_pitchCount = Some 32\<rparr>\<rparr>"

definition example_play ::
  "string \<Rightarrow> int \<Rightarrow> half \<Rightarrow> string \<Rightarrow> string option \<Rightarrow> string option \<Rightarrow> string option \<Rightarrow>
   int option \<Rightarrow> LivePlayEvent" where
  "example_play k n h t sd b p outs =
     \<lparr>lp_key = k, lp_order = n, lp_inning = Some 9, lp_half = Some h, lp_isSubstitution = False,
      lp_text = t, lp_scoringDecision = sd, lp_batter = b, lp_pitcher = p, lp_outs = outs,
      lp_sectionTitle = ''9th Inning Play-by-play''\<rparr>"

definition example_plays :: "LivePlayEvent list" where
  "example_plays =
     [example_play ''k1'' 1 Top ''Roe,Max singled to center field, RBI; Lane,Chris scored.''
        (Some ''1B 1RBI'') (Some ''Roe,Max'') (Some ''Smith,Alex'') (Some 0),
      example_play ''k2'' 2 Top ''Doe,John struck out looking (0-2 KKFK).''
        None (Some ''Doe,John'') (Some ''Smith,Alex'') (Some 1),
      example_play ''k3'' 3 Top ''Poe,Ian flied out to rf (1-1 BK).''
        None (Some ''Poe,Ian'') (Some ''Smith,Alex'') (Some 2),
      example_play ''k4'' 4 Bottom ''Cole,Ben grounded out to 2b (1-2).''
        None (Some ''Cole,Ben'') (Some ''Lee,Tom'') (Some 0)]"

definition example_play_input :: BuildPlayTweetTextInput where
  "example_play_input =
     \<lparr>pi_play = hd example_plays, pi_summary = example_summary, pi_stateAfterPlay = None,
      pi_maxLength = Some 40, pi_appendTag = Some ''#NCAABaseball''\<rparr>"

definition short_limit_input :: BuildFinalTweetTextInput where
  "short_limit_input =
     \<lparr>fi_summary = example_summary\<lparr>sm_visitorTeam := ''Wake Forest'', sm_homeTeam := ''Houston'',
                                     sm_visitorScore := Some 4, sm_homeScore := Some 6\<rparr>,
      fi_pitcherDecisions = None, fi_maxLength = Some 10, fi_appendTag = None\<rparr>"

section \<open>The two passes of deriveLivePlayStates, in the words of the specification\<close>

definition homeRunPattern :: rx where
  \<comment> \<open>\<open>/\bhomered\b|\bhome run\b/i\<close>\<close>
  "homeRunPattern = Alt (word_rxi ''homered'') (word_rxi ''home run'')"

definition runsLargestOf :: "(string \<Rightarrow> string) \<Rightarrow> LivePlayEvent \<Rightarrow> nat" where
  \<comment> \<open>The largest of three estimates: the number of \<open>scored\<close> mentions, the RBI count of
     the scoring decision or of the text (the number before \<open>RBI\<close>, or 1 for \<open>RBI\<close> alone),
     and 1 for a home run that has no other run annotation.\<close>
  "runsLargestOf dec play =
     (let t = cleanText dec (lp_text play);
          scoredMentions = rx_count (word_rxi ''scored'') t;
          rbiCount = max (orZero (parseRbiCount dec (lp_scoringDecision play)))
                         (orZero (parseRbiCount dec (Some t)));
          homeRunDefault =
            (if rx_test homeRunPattern t \<and> scoredMentions = 0 \<and> rbiCount = 0 then 1 else 0)
      in max scoredMentions (max rbiCount homeRunDefault))"

definition undoPlay ::
  "(string \<Rightarrow> string) \<Rightarrow> LivePlayEvent \<Rightarrow> int option \<times> int option \<Rightarrow> int option \<times> int option" where
  \<comment> \<open>One step of the last-to-first walk: the runs of the play are taken from the total of
     the batting side (top: away, bottom: home), never below zero; a substitution, a play
     without runs or without a half, and an unknown total change nothing.\<close>
  "undoPlay dec play sc =
     (case sc of (away, home) \<Rightarrow>
        if lp_isSubstitution play \<or> runsLargestOf dec play = 0 then (away, home)
        else (case lp_half play of
                Some Top \<Rightarrow> (map_option (\<lambda>a. max 0 (a - int (runsLargestOf dec play))) away, home)
              | Some Bottom \<Rightarrow> (away, map_option (\<lambda>h. max 0 (h - int (runsLargestOf dec play))) home)
              | None \<Rightarrow> (away, home)))"

definition runningScore ::
  "(string \<Rightarrow> string) \<Rightarrow> LivePlayEvent list \<Rightarrow> LiveSummary \<Rightarrow> nat \<Rightarrow> int option \<times> int option" where
  \<comment> \<open>The running score when the walk reaches play \<open>i\<close>: the summary's score with the
     plays after \<open>i\<close> undone, last first.\<close>
  "runningScore dec plays summary i =
     fold (undoPlay dec) (rev (drop (Suc i) plays))
       (sm_visitorScore summary, sm_homeScore summary)"

definition outsOnPlayInWords :: "(string \<Rightarrow> string) \<Rightarrow> string \<Rightarrow> nat" where
  \<comment> \<open>3 for a triple play, 2 for a double play, else the number of \<open>out at\<close> and
     \<open>out on the play\<close> mentions, else 1 when an out keyword appears, else 0.\<close>
  "outsOnPlayInWords dec t =
     (let n = cleanText dec t;
          mentions = rx_count (word_rxi ''out at'') n + rx_count (word_rxi ''out on the play'') n
      in if rx_test (word_rxi ''triple play'') n then 3
         else if rx_test (word_rxi ''double play'') n then 2
         else if mentions > 0 then mentions
         else if rx_test out_keywords n then 1
         else 0)"

definition outsAfterInWords ::
  "(string \<Rightarrow> string) \<Rightarrow> LivePlayEvent list \<Rightarrow> nat \<Rightarrow> int option" where
  "outsAfterInWords dec plays i =
     (let play = plays ! i in
      if Suc i < length plays \<and> isSameHalfInning play (plays ! Suc i) \<and>
         lp_outs (plays ! Suc i) \<noteq> None
      then map_option clampOuts (lp_outs (plays ! Suc i))
      else if Suc i < length plays \<and> \<not> isSameHalfInning play (plays ! Suc i)
      then Some 3
      else map_option (\<lambda>n. clampOuts (n + int (outsOnPlayInWords dec (lp_text play))))
             (lp_outs play))"

definition homer_plays :: "LivePlayEvent list" where
  "homer_plays =
     [example_play ''a'' 1 Top ''Lee,Sam walked.'' None (Some ''Lee,Sam'') (Some ''Smith,Alex'') (Some 0),
      example_play ''b'' 2 Top ''Roe,Max homered to left field.''
        None (Some ''Roe,Max'') (Some ''Smith,Alex'') (Some 0)]"

definition scoreless_summary :: LiveSummary where
  "scoreless_summary = example_summary\<lparr>sm_visitorScore := Some 0, sm_homeScore := Some 0\<rparr>"

definition five_outs_plays :: "LivePlayEvent list" where
  "five_outs_plays =
     [example_play ''a'' 1 Top ''Lee,Sam walked.'' None (Some ''Lee,Sam'') (Some ''Smith,Alex'') (Some 0),
      example_play ''b'' 2 Top ''Roe,Max struck out.''
        None (Some ''Roe,Max'') (Some ''Smith,Alex'') (Some 5)]"

section \<open>The play description parser (scorekeeping module)\<close>

datatype BaseballPlayOutcome =
    Single | Double | Triple | HomeRun | Walk | IntentionalWalk | HitByPitch | Strikeout
  | GroundOut | FlyOut | LineOut | FoulOut | Sacrifice | FielderChoice | ReachedOnError
  | StolenBase | CaughtStealing | Pickoff | WildPitch | PassedBall | Balk | Other

definition addTag :: "string \<Rightarrow> string list \<Rightarrow> string list" where
  \<comment> \<open>\<open>tags.add(value)\<close> on a \<open>Set\<close>, which keeps the order of insertion\<close>
  "addTag v tags = (if v \<in> set tags then tags else tags @ [v])"

definition detectTags :: "string \<Rightarrow> string list" where
  \<comment> \<open>The four tag tests at the head of \<open>parsePlayDescription\<close>, on the lower-cased text.\<close>
  "detectTags lower =
     (let t1 = (if rx_test (word_rx ''double play'') lower then addTag ''double_play'' [] else []);
          t2 = (if rx_test (word_rx ''triple play'') lower then addTag ''triple_play'' t1 else t1);
          t3 = (if rx_test (Alt (word_rx ''scored'') (word_rx ''scores'')) lower
                then addTag ''run_scored'' t2 else t2)
      in if rx_test (word_rx ''rbi'') lower then addTag ''rbi'' t3 else t3)"

definition not_play :: "string \<Rightarrow> rx" where
  \<comment> \<open>\<open>\bw(?!\s+play)\b\<close>\<close>
  "not_play w = seqs [WordB, Lit w, NotAhead (Seq (Plus is_space) (Lit ''play'')), WordB]"

definition orderedMatchers :: "(BaseballPlayOutcome \<times> rx \<times> string) list" where
  "orderedMatchers =
     [(HomeRun, Alt (word_rx ''homered'') (word_rx ''home run''), ''home_run''),
      (Triple, Alt (word_rx ''tripled'') (not_play ''triple''), ''triple''),
      (Double, Alt (word_rx ''doubled'') (not_play ''double''), ''double''),
      (Single, Alt (word_rx ''singled'') (word_rx ''single''), ''single''),
      (IntentionalWalk, word_rx ''intentionally walked'', ''intentional_walk''),
      (Walk, Alt (word_rx ''walked'') (word_rx ''walk''), ''walk''),
      (HitByPitch, Alt (word_rx ''hit by pitch'') (word_rx ''hbp''), ''hit_by_pitch''),
      (CaughtStealing, word_rx ''caught stealing'', ''caught_stealing''),
      (Pickoff, Alt (word_rx ''picked off'') (word_rx ''pickoff''), ''pickoff''),
      (StolenBase, Alt (word_rx ''stole'') (word_rx ''stolen base''), ''stolen_base''),
      (Strikeout, Alt (word_rx ''struck out'') (word_rx ''strikeout''), ''strikeout''),
      (GroundOut, alts [word_rx ''grounded out'', word_rx ''ground out'', word_rx ''groundout''],
         ''ground_out''),
      (FlyOut, alts [word_rx ''flied out'', word_rx ''fly out'', word_rx ''popped out''],
         ''fly_out''),
      (LineOut, Alt (word_rx ''lined out'') (word_rx ''line out''), ''line_out''),
      (FoulOut, Alt (word_rx ''fouled out'') (word_rx ''foul out''), ''foul_out''),
      (Sacrifice, alts [word_rx ''sacrifice'', word_rx ''sac fly'', word_rx ''sac bunt''],
         ''sacrifice''),
      (FielderChoice,
         seqs [WordB, Lit ''fielder'', Opt (Lit [CHR 0x27]), Lit ''s choice'', WordB],
         ''fielder_choice''),
      (ReachedOnError,
         alts [word_rx ''reached on an error'', word_rx ''reached on a throwing error'',
               word_rx ''reached on error''], ''error''),
      (WildPitch, word_rx ''wild pitch'', ''wild_pitch''),
      (PassedBall, word_rx ''passed ball'', ''passed_ball''),
      (Balk, word_rx ''balk'', ''balk'')]"

fun firstMatch ::
  "(BaseballPlayOutcome \<times> rx \<times> string) list \<Rightarrow> string \<Rightarrow> string list \<Rightarrow>
   BaseballPlayOutcome \<times> string list" where
  \<comment> \<open>The loop over the matchers: the first pattern that matches decides.\<close>
  "firstMatch [] lower tags = (Other, tags)"
| "firstMatch ((outcome, pattern, tag) # rest) lower tags =
     (if rx_test pattern lower then (outcome, addTag tag tags)
      else firstMatch rest lower tags)"

definition parsePlayDescription :: "string \<Rightarrow> BaseballPlayOutcome \<times> string list" where
  "parsePlayDescription t =
     (let lower = toLowerCase t in firstMatch orderedMatchers lower (detectTags lower))"

subsection \<open>Scoring decisions and field locations\<close>

datatype LocationSource = FromText | Scorecard | NoLocation

record BaseballFieldLocation =
  fl_code :: int
  fl_abbreviation :: string
  fl_name :: string

record BaseballScoringDecisionContext =
  dc_playCode :: "string option"
  dc_fielderCodes :: "int list"
  dc_fieldLocations :: "BaseballFieldLocation list"
  dc_rbi :: "nat option"
  dc_locationSource :: LocationSource
  dc_locationConfidence :: rat

definition toStringValue :: "string option \<Rightarrow> string option" where
  "toStringValue v =
     (case v of
        None \<Rightarrow> None
      | Some raw \<Rightarrow> let t = trim raw in if length t > 0 \<and> t \<noteq> ''-'' then Some t else None)"

definition mapFielderCodeToLocation :: "int \<Rightarrow> BaseballFieldLocation" where
  "mapFielderCodeToLocation c =
     (if c = 1 then \<lparr>fl_code = c, fl_abbreviation = ''P'', fl_name = ''pitcher''\<rparr>
      else if c = 2 then \<lparr>fl_code = c, fl_abbreviation = ''C'', fl_name = ''catcher''\<rparr>
      else if c = 3 then \<lparr>fl_code = c, fl_abbreviation = ''1B'', fl_name = ''first base''\<rparr>
      else if c = 4 then \<lparr>fl_code = c, fl_abbreviation = ''2B'', fl_name = ''second base''\<rparr>
      else if c = 5 then \<lparr>fl_code = c, fl_abbreviation = ''3B'', fl_name = ''third base''\<rparr>
      else if c = 6 then \<lparr>fl_code = c, fl_abbreviation = ''SS'', fl_name = ''shortstop''\<rparr>
      else if c = 7 then \<lparr>fl_code = c, fl_abbreviation = ''LF'', fl_name = ''left field''\<rparr>
      else if c = 8 then \<lparr>fl_code = c, fl_abbreviation = ''CF'', fl_name = ''center field''\<rparr>
      else if c = 9 then \<lparr>fl_code = c, fl_abbreviation = ''RF'', fl_name = ''right field''\<rparr>
      else \<lparr>fl_code = c, fl_abbreviation = ''UNK'', fl_name = ''unknown''\<rparr>)"

definition all_digits :: rx where
  \<comment> \<open>\<open>/^\d+$/\<close>\<close>
  "all_digits = seqs [Bol, Plus is_digit, Eol]"

definition parseScoringDecisionContext ::
  "string option \<Rightarrow> BaseballScoringDecisionContext option" where
  "parseScoringDecisionContext scoringDecision =
     (case toStringValue scoringDecision of
        None \<Rightarrow> None
      | Some clean \<Rightarrow>
          let normalized = toUpperCase clean;
              parts = filter (\<lambda>part. length part > 0) (split_spaces False [] normalized)
          in (case parts of
                [] \<Rightarrow> None
              | playCodeCandidate # others \<Rightarrow>
                  let playCode =
                        (if rx_test (seqs [Bol, Plus (\<lambda>c. is_upper c \<or> is_digit c), Eol])
                              playCodeCandidate \<and>
                            \<not> rx_test (seqs [Bol, Plus is_digit, Lit ''RBI'', Eol]) playCodeCandidate
                         then Some playCodeCandidate else None);
                      locationToken = find (\<lambda>part. rx_test all_digits part) parts;
                      fielderCodes =
                        (case locationToken of
                           None \<Rightarrow> []
                         | Some token \<Rightarrow> map (\<lambda>digit. int (parse_digits [digit])) token);
                      validFielderCodes = filter (\<lambda>c. 1 \<le> c \<and> c \<le> 9) fielderCodes;
                      fieldLocations = map mapFielderCodeToLocation validFielderCodes;
                      rbi =
                        (case rx_exec (seqs [Grp 1 (Plus is_digit), Star is_space, Lit ''RBI'', WordB])
                                normalized of
                           Some (i, q, r, cs) \<Rightarrow> Some (parse_digits (group cs 1))
                         | None \<Rightarrow> if rx_test (word_rx ''RBI'') normalized then Some 1 else None)
                  in Some \<lparr>dc_playCode = playCode,
                           dc_fielderCodes = validFielderCodes,
                           dc_fieldLocations = fieldLocations,
                           dc_rbi = rbi,
                           dc_locationSource =
                             (if length validFielderCodes > 0 then Scorecard else NoLocation),
                           dc_locationConfidence =
                             (if length validFielderCodes > 0 then 9 / 10 else 0)\<rparr>))"

definition toward :: "string list \<Rightarrow> string list \<Rightarrow> rx" where
  \<comment> \<open>\<open>\b(?:preps)\s+(?:deep\s+)?(?:places)\b\<close>; the infield patterns have no \<open>deep\<close>\<close>
  "toward preps places =
     seqs [WordB, alts (map Lit preps), Plus is_space, alts (map Lit places), WordB]"

definition toward_deep :: "string list \<Rightarrow> string list \<Rightarrow> rx" where
  "toward_deep preps places =
     seqs [WordB, alts (map Lit preps), Plus is_space,
           Opt (Seq (Lit ''deep'') (Plus is_space)), alts (map Lit places), WordB]"

definition locationPatterns :: "(rx \<times> int) list" where
  \<comment> \<open>The calls of \<open>addMatches\<close>, in their order.\<close>
  "locationPatterns =
     (let outfield = [''to'', ''into'', ''toward'', ''towards'', ''down''];
          infield = [''to'', ''toward'', ''towards'']
      in [(toward_deep outfield [''right field'', ''rf''], 9),
          (toward_deep outfield [''center field'', ''cf''], 8),
          (toward_deep outfield [''left field'', ''lf''], 7),
          (toward infield [''pitcher'', ''p''], 1),
          (toward infield [''catcher'', ''c''], 2),
          (toward infield [''first base'', ''1b''], 3),
          (toward infield [''second base'', ''2b''], 4),
          (toward infield [''third base'', ''3b''], 5),
          (toward infield [''shortstop'', ''ss''], 6)])"

definition locationMatches :: "string \<Rightarrow> (nat \<times> int) list" where
  \<comment> \<open>The array \<open>matches\<close>: (index, code) of the first match of each pattern that matches.\<close>
  "locationMatches lower =
     concat (map (\<lambda>(pattern, c).
                    case rx_exec pattern lower of
                      None \<Rightarrow> []
                    | Some (i, m) \<Rightarrow> [(i, c)]) locationPatterns)"

definition parseFieldLocationsFromText :: "string \<Rightarrow> BaseballFieldLocation list" where
  "parseFieldLocationsFromText playText =
     (let matches = locationMatches (toLowerCase playText) in
      if length matches = 0 then []
      else [mapFielderCodeToLocation (snd (hd (sort_key fst matches)))])"

definition resolveScoringDecisionContext ::
  "string option \<Rightarrow> string \<Rightarrow> BaseballScoringDecisionContext option" where
  "resolveScoringDecisionContext scoringDecision playText =
     (let base = parseScoringDecisionContext scoringDecision;
          textLocations = parseFieldLocationsFromText playText
      in if length textLocations > 0
         then (let fielderCodes = map fl_code textLocations in
               case base of
                 Some b \<Rightarrow>
                   Some (b\<lparr>dc_fielderCodes := fielderCodes, dc_fieldLocations := textLocations,
                           dc_locationSource := FromText, dc_locationConfidence := 1\<rparr>)
               | None \<Rightarrow>
                   Some \<lparr>dc_playCode = None, dc_fielderCodes = fielderCodes,
                         dc_fieldLocations = textLocations, dc_rbi = None,
                         dc_locationSource = FromText, dc_locationConfidence = 1\<rparr>)
         else base)"

subsection \<open>The shorthand in the words of the specification\<close>

definition shorthandCodes :: "string option \<Rightarrow> int list" where
  \<comment> \<open>The fielder codes of a shorthand: of its whitespace-separated tokens, the first that
     is made of digits only; of that token, the digits 1 to 9, in order.\<close>
  "shorthandCodes sd =
     (case sd of
        None \<Rightarrow> []
      | Some raw \<Rightarrow>
          (case filter (\<lambda>token. list_all is_digit token) (tokens is_space raw) of
             [] \<Rightarrow> []
           | token # others \<Rightarrow>
               map (\<lambda>d. int (digit_val d)) (filter (\<lambda>d. d \<noteq> CHR ''0'') token)))"

definition blankShorthand :: "string option \<Rightarrow> bool" where
  \<comment> \<open>No shorthand: null, or nothing but a lone hyphen between its surrounding whitespace.\<close>
  "blankShorthand sd =
     (case sd of None \<Rightarrow> True | Some raw \<Rightarrow> trim raw = [] \<or> trim raw = ''-'')"

section \<open>The player registry (scorekeeping module)\<close>

lemma digit_val_digit_char: "d < 10 \<Longrightarrow> digit_val (digit_char d) = d"
  by (simp add: digit_val_def digit_char_def)

lemma parse_digits_snoc: "parse_digits (ds @ [c]) = 10 * parse_digits ds + digit_val c"
  by (simp add: parse_digits_def)

lemma parse_digits_nat_to_string: "parse_digits (nat_to_string n) = n"
proof (induction n rule: nat_to_string.induct)
  case (1 n)
  show ?case
  proof (cases "n < 10")
    case True
    then show ?thesis
      by (subst nat_to_string.simps) (simp add: parse_digits_def digit_val_digit_char)
  next
    case False
    with 1 have "parse_digits (nat_to_string (n div 10)) = n div 10" by simp
    with False show ?thesis
      by (subst nat_to_string.simps) (simp add: parse_digits_snoc digit_val_digit_char)
  qed
qed

lemma nat_to_string_inj: "nat_to_string a = nat_to_string b \<Longrightarrow> a = b"
  by (metis parse_digits_nat_to_string)

fun side_string :: "side \<Rightarrow> string" where
  "side_string Away = ''away''"
| "side_string Home = ''home''"

record BaseballPlayer =
  playerId :: string
  pl_name :: string
  normalizedName :: string
  sides :: "side list"
  jerseyNumbers :: "int list"
  positions :: "string list"

text \<open>
  The two \<open>Map\<close>s of the registry are association lists in insertion order, read with
  \<open>map_of\<close> and written with \<open>AList.update\<close>, which replaces the value of a key that
  is present where it stands and appends a new key, as \<open>Map.set\<close> does.
\<close>

record PlayerRegistry =
  playersById :: "(string \<times> BaseballPlayer) list"
  idBySideAndName :: "(string \<times> string) list"

definition createPlayerRegistry :: PlayerRegistry where
  "createPlayerRegistry = \<lparr>playersById = [], idBySideAndName = []\<rparr>"

definition normalizePlayerDisplayName :: "string option \<Rightarrow> string option" where
  "normalizePlayerDisplayName v =
     (case toStringValue v of
        None \<Rightarrow> None
      | Some clean \<Rightarrow>
          if CHR '','' \<notin> set clean then Some (trim (collapse_spaces clean))
          else
            let lastName = trim (takeWhile (\<lambda>c. c \<noteq> CHR '','') clean);
                firstName = trim (tl (dropWhile (\<lambda>c. c \<noteq> CHR '','') clean))
            in if firstName = [] \<or> lastName = [] then Some (trim (collapse_spaces clean))
               else Some (trim (collapse_spaces (firstName @ '' '' @ lastName))))"

definition normalizeName :: "string option \<Rightarrow> string" where
  "normalizeName v =
     (let display = orDefault (normalizePlayerDisplayName v) (orDefault v [])
      in trim (collapse_spaces
           (replace_runs (\<lambda>c. \<not> is_word c) (CHR '' '') False (toLowerCase display))))"


definition slugForId :: "string \<Rightarrow> string" where
  "slugForId v =
     (let dashed = replace_runs (\<lambda>c. \<not> (is_lower c \<or> is_digit c)) (CHR ''-'') False
                     (toLowerCase v);
          slug = rev (dropWhile (\<lambda>c. c = CHR ''-'') (rev (dropWhile (\<lambda>c. c = CHR ''-'') dashed)))
      in if slug = [] then ''unknown'' else slug)"

definition suffixed :: "string \<Rightarrow> nat \<Rightarrow> string" where
  \<comment> \<open>\<open>`${baseId}:${index}`\<close>\<close>
  "suffixed baseId index = baseId @ '':'' @ nat_to_string index"

lemma suffixed_inj: "suffixed b i = suffixed b j \<Longrightarrow> i = j"
  by (simp add: suffixed_def nat_to_string_inj)

function uniqueId_loop :: "string \<Rightarrow> string list \<Rightarrow> nat \<Rightarrow> string" where
  \<comment> \<open>The \<open>while\<close> loop of \<open>uniqueId\<close> over the keys of the map.\<close>
  "uniqueId_loop baseId keys index =
     (if suffixed baseId index \<in> set keys then uniqueId_loop baseId keys (Suc index)
      else suffixed baseId index)"
  by pat_completeness auto
termination
proof (relation "measure (\<lambda>(baseId, keys, index).
         length (filter (\<lambda>k. \<exists>j\<ge>index. k = suffixed baseId j) keys))", goal_cases)
  case 1
  show ?case by simp
next
  case (2 baseId keys index)
  let ?P = "\<lambda>k. \<exists>j\<ge>index. k = suffixed baseId j"
  let ?Q = "\<lambda>k. \<exists>j\<ge>Suc index. k = suffixed baseId j"
  have imp: "?P k" if "?Q k" for k
  proof -
    from that obtain j where "Suc index \<le> j" "k = suffixed baseId j" by blast
    then have "index \<le> j \<and> k = suffixed baseId j" by simp
    then show ?thesis by blast
  qed
  have sub: "filter ?Q keys = filter ?Q (filter ?P keys)"
    unfolding filter_filter
  proof (rule filter_cong[OF refl])
    fix k assume "k \<in> set keys"
    show "?Q k = (?P k \<and> ?Q k)" using imp[of k] by blast
  qed
  have mem: "suffixed baseId index \<in> set (filter ?P keys)"
    using 2 by auto
  have notQ: "\<not> ?Q (suffixed baseId index)"
    by (auto dest: suffixed_inj)
  have "length (filter ?Q (filter ?P keys)) < length (filter ?P keys)"
    using length_filter_less[where P = ?Q and xs = "filter ?P keys"
            and x = "suffixed baseId index"] mem notQ
    by blast
  then have "length (filter ?Q keys) < length (filter ?P keys)"
    by (simp only: sub[symmetric])
  then show ?case by simp
qed

declare uniqueId_loop.simps [simp del]

definition uniqueId :: "string \<Rightarrow> (string \<times> 'a) list \<Rightarrow> string" where
  "uniqueId baseId al =
     (if baseId \<notin> set (map fst al) then baseId else uniqueId_loop baseId (map fst al) 2)"

definition pushNew :: "'a \<Rightarrow> 'a list \<Rightarrow> 'a list" where
  \<comment> \<open>\<open>if (!xs.includes(x)) xs.push(x)\<close>\<close>
  "pushNew x xs = (if x \<in> set xs then xs else xs @ [x])"

definition mergeInto ::
  "BaseballPlayer \<Rightarrow> side \<Rightarrow> int option \<Rightarrow> string option \<Rightarrow> BaseballPlayer" where
  \<comment> \<open>The three conditional pushes on the player that is already registered.\<close>
  "mergeInto existing sd jersey position =
     (let p1 = (case jersey of
                  None \<Rightarrow> existing
                | Some j \<Rightarrow> existing\<lparr>jerseyNumbers := pushNew j (jerseyNumbers existing)\<rparr>);
          p2 = (case position of
                  None \<Rightarrow> p1
                | Some pos \<Rightarrow> if pos \<noteq> [] then p1\<lparr>positions := pushNew pos (positions p1)\<rparr> else p1)
      in p2\<lparr>sides := pushNew sd (sides p2)\<rparr>)"

definition sideNameKey :: "side \<Rightarrow> string \<Rightarrow> string" where
  "sideNameKey sd nm = side_string sd @ ''|'' @ normalizeName (Some nm)"

definition baseIdFor :: "side \<Rightarrow> string \<Rightarrow> int option \<Rightarrow> string" where
  \<comment> \<open>\<open>`${side}:${jerseyPart}:${slugForId(displayName)}`\<close>\<close>
  "baseIdFor sd nm jersey =
     (let displayName = orDefault (normalizePlayerDisplayName (Some nm)) nm;
          jerseyPart = (case jersey of None \<Rightarrow> ''na'' | Some j \<Rightarrow> int_to_string j)
      in side_string sd @ '':'' @ jerseyPart @ '':'' @ slugForId displayName)"

definition registerFresh ::
  "PlayerRegistry \<Rightarrow> side \<Rightarrow> string \<Rightarrow> int option \<Rightarrow> string option \<Rightarrow> string \<times> PlayerRegistry" where
  "registerFresh reg sd nm jersey position =
     (let displayName = orDefault (normalizePlayerDisplayName (Some nm)) nm;
          pid = uniqueId (baseIdFor sd nm jersey) (playersById reg);
          player = \<lparr>playerId = pid, pl_name = displayName,
                    normalizedName = normalizeName (Some nm), sides = [sd],
                    jerseyNumbers = (case jersey of None \<Rightarrow> [] | Some j \<Rightarrow> [j]),
                    positions = (case position of
                                   None \<Rightarrow> []
                                 | Some pos \<Rightarrow> if pos \<noteq> [] then [pos] else [])\<rparr>
      in (pid, \<lparr>playersById = AList.update pid player (playersById reg),
                idBySideAndName = AList.update (sideNameKey sd nm) pid (idBySideAndName reg)\<rparr>))"

definition register ::
  "PlayerRegistry \<Rightarrow> side \<Rightarrow> string \<Rightarrow> int option \<Rightarrow> string option \<Rightarrow> string \<times> PlayerRegistry" where
  "register reg sd nm jersey position =
     (case map_of (idBySideAndName reg) (sideNameKey sd nm) of
        None \<Rightarrow> registerFresh reg sd nm jersey position
      | Some existingByName \<Rightarrow>
          if existingByName = [] then registerFresh reg sd nm jersey position
          else (case map_of (playersById reg) existingByName of
                  None \<Rightarrow> (existingByName, reg)
                | Some existing \<Rightarrow>
                    (existingByName,
                     reg\<lparr>playersById :=
                           AList.update existingByName (mergeInto existing sd jersey position)
                             (playersById reg)\<rparr>)))"

type_synonym registration = "side \<times> string \<times> int option \<times> string option"

fun registerAll :: "PlayerRegistry \<Rightarrow> registration list \<Rightarrow> string list \<times> PlayerRegistry" where
  \<comment> \<open>A sequence of \<open>register\<close> calls on one registry: the identifiers returned, in order,
     and the registry at the end.\<close>
  "registerAll reg [] = ([], reg)"
| "registerAll reg ((sd, nm, jersey, position) # calls) =
     (let (pid, reg') = register reg sd nm jersey position;
          (ids, reg'') = registerAll reg' calls
      in (pid # ids, reg''))"

definition registry_inv :: "PlayerRegistry \<Rightarrow> bool" where
  \<comment> \<open>Every identifier in the name index is non-empty and names a registered player.\<close>
  "registry_inv reg =
     (\<forall>k pid. map_of (idBySideAndName reg) k = Some pid \<longrightarrow>
        pid \<noteq> [] \<and> map_of (playersById reg) pid \<noteq> None)"

definition grown :: "BaseballPlayer \<Rightarrow> BaseballPlayer \<Rightarrow> bool" where
  \<comment> \<open>The later record of a player holds everything the earlier one held.\<close>
  "grown p p' =
     (playerId p' = playerId p \<and> pl_name p' = pl_name p \<and>
      normalizedName p' = normalizedName p \<and>
      set (sides p) \<subseteq> set (sides p') \<and>
      set (jerseyNumbers p) \<subseteq> set (jerseyNumbers p') \<and>
      set (positions p) \<subseteq> set (positions p'))"

definition callKey :: "registration \<Rightarrow> string" where
  \<comment> \<open>The key under which a call looks the player up: side and normalized name.\<close>
  "callKey c = sideNameKey (fst c) (fst (snd c))"

definition example_calls :: "registration list" where
  "example_calls =
     [(Away, ''Kelly,Rowan'', Some 7, Some ''ss''),
      (Away, ''Rowan_Kelly'', Some 7, None),
      (Away, ''rowan  KELLY'', Some 8, Some ''p'')]"

section \<open>The scorekeeping unifier\<close>

datatype EventType = HalfEvent | PlayEvent | SummaryEvent | NoteEvent






























subsection \<open>The reconciliation in the words of the specification\<close>






















section \<open>Reading the plays of a stats payload (src/pipelines/live-play-feed.ts)\<close>

text \<open>
  A table cell is a string, a number or \<open>null\<close>. Of a row only \<open>cells\<close> is read, and of
  the payload only \<open>sections\<close>; the payload keeps \<open>id\<close>, \<open>view\<close> and \<open>fetchedAt\<close> so that
  two payloads can differ outside their sections. \<open>digest\<close> is the first 20 hexadecimal
  digits of the SHA-1 hash, computed by the \<open>crypto\<close> library, which is not part of the
  repository: the model takes it as the parameter \<open>digest\<close>.
\<close>

datatype cell = CellString string | CellNumber int | CellNull

record StatsTableRow =
  tr_cells :: "cell list"

record StatsTable =
  tb_headers :: "string list"
  tb_rows :: "StatsTableRow list"

record StatsSection =
  sec_title :: string
  sec_tables :: "StatsTable list"

record StatBroadcastLiveStats =
  ls_id :: int
  ls_view :: string
  ls_sections :: "StatsSection list"
  ls_fetchedAt :: string

definition truthy :: "string option \<Rightarrow> bool" where
  \<comment> \<open>A value of type \<open>string | null\<close> used as a condition.\<close>
  "truthy v = (case v of None \<Rightarrow> False | Some s \<Rightarrow> s \<noteq> [])"

fun cell_string :: "cell \<Rightarrow> string" where
  \<comment> \<open>\<open>String(value)\<close>\<close>
  "cell_string (CellString s) = s"
| "cell_string (CellNumber n) = int_to_string n"
| "cell_string CellNull = ''null''"

definition toOptionalString :: "(string \<Rightarrow> string) \<Rightarrow> cell \<Rightarrow> string option" where
  "toOptionalString dec v =
     (if v = CellNull then None
      else let t = cleanText dec (cell_string v) in if length t > 0 then Some t else None)"

definition parseInteger :: "(string \<Rightarrow> string) \<Rightarrow> string option \<Rightarrow> int option" where
  "parseInteger dec v =
     (if \<not> truthy v then None
      else
        let clean = filter (\<lambda>c. c \<noteq> CHR '','') (cleanText dec (the v)) in
        if \<not> rx_test (seqs [Bol, Opt (Lit ''-''), Plus is_digit, Eol]) clean then None
        else if hd clean = CHR ''-'' then Some (- int (parse_digits (tl clean)))
        else Some (int (parse_digits clean)))"

fun toOptionalNumber :: "(string \<Rightarrow> string) \<Rightarrow> cell \<Rightarrow> int option" where
  "toOptionalNumber dec (CellNumber n) = Some n"
| "toOptionalNumber dec CellNull = None"
| "toOptionalNumber dec (CellString s) = parseInteger dec (Some s)"

definition alignCellsToHeaders :: "(string \<Rightarrow> string) \<Rightarrow> string list \<Rightarrow> cell list \<Rightarrow> cell list" where
  "alignCellsToHeaders dec headers cells =
     (if length headers = length cells then cells
      else if length headers = length cells + 1 \<and> cleanText dec (hd headers) = [] then CellNull # cells
      else if length headers = length cells + 1 \<and> cleanText dec (last headers) = []
        then cells @ [CellNull]
      else cells)"

definition cellAt :: "cell list \<Rightarrow> nat \<Rightarrow> cell" where
  \<comment> \<open>\<open>cells[index] ?? null\<close>\<close>
  "cellAt cells index = (if index < length cells then cells ! index else CellNull)"

definition readTableCellByHeader :: "(string \<Rightarrow> string) \<Rightarrow> StatsTable \<Rightarrow> StatsTableRow \<Rightarrow> rx \<Rightarrow> cell" where
  "readTableCellByHeader dec table row headerPattern =
     (case find (\<lambda>index. rx_test headerPattern (cleanText dec (tb_headers table ! index)))
             [0 ..< length (tb_headers table)] of
        None \<Rightarrow> CellNull
      | Some index \<Rightarrow> cellAt (alignCellsToHeaders dec (tb_headers table) (tr_cells row)) index)"

definition playHeader :: rx where
  \<comment> \<open>\<open>/^play$/i\<close>\<close>
  "playHeader = seqs [Bol, LitI ''play'', Eol]"

definition scoringHeader :: rx where
  \<comment> \<open>\<open>/^scoring dec\.?$/i\<close>\<close>
  "scoringHeader = seqs [Bol, LitI ''scoring dec'', Opt (Lit ''.''), Eol]"

definition batterHeader :: rx where
  "batterHeader = seqs [Bol, LitI ''batter'', Eol]"

definition pitcherHeader :: rx where
  "pitcherHeader = seqs [Bol, LitI ''pitcher'', Eol]"

definition outsHeader :: rx where
  "outsHeader = seqs [Bol, LitI ''outs'', Eol]"

definition isHeaderPlaceholderRow :: "(string \<Rightarrow> string) \<Rightarrow> StatsTable \<Rightarrow> StatsTableRow \<Rightarrow> bool" where
  "isHeaderPlaceholderRow dec table row =
     (toOptionalString dec (readTableCellByHeader dec table row playHeader) = Some ''Play'' \<and>
      toOptionalString dec (readTableCellByHeader dec table row scoringHeader) = Some ''Scoring Dec.'' \<and>
      toOptionalString dec (readTableCellByHeader dec table row batterHeader) = Some ''Batter'' \<and>
      toOptionalString dec (readTableCellByHeader dec table row pitcherHeader) = Some ''Pitcher'' \<and>
      toOptionalString dec (readTableCellByHeader dec table row outsHeader) = Some ''Outs'')"

definition isLikelyActionCode :: "(string \<Rightarrow> string) \<Rightarrow> string \<Rightarrow> bool" where
  "isLikelyActionCode dec v =
     (let t = cleanText dec v;
          code_char = (\<lambda>c. is_upper c \<or> is_digit c)
      in if t = [] then False
         else if CHR '' '' \<in> set t then False
         else rx_test (seqs [Bol, Cls code_char,
                             Opt (Seq (Cls code_char) (Opt (Seq (Cls code_char) (Opt (Cls code_char))))),
                             Eol]) t)"

definition isLikelyPlayText :: "(string \<Rightarrow> string) \<Rightarrow> string \<Rightarrow> bool" where
  "isLikelyPlayText dec v =
     (let t = cleanText dec v
      in if t = [] then False
         else if isLikelyActionCode dec t then False
         else rx_test (Cls is_space) t \<or> rx_test (Cls (\<lambda>c. c \<in> set ''.();'')) t)"

definition isLikelyPlayerName :: "(string \<Rightarrow> string) \<Rightarrow> string \<Rightarrow> bool" where
  "isLikelyPlayerName dec v =
     (let t = cleanText dec v
      in if t = [] then False
         else if rx_test all_digits t then False
         else if isLikelyActionCode dec t then False
         else rx_test (seqs [Bol, Cls is_alpha,
                             Star (\<lambda>c. is_alpha c \<or> c \<in> set [CHR 0x27, CHR ''.'', CHR '' '', CHR ''-'']),
                             Eol]) t)"

record FallbackPlayFields =
  fb_play :: "string option"
  fb_scoringDecision :: "string option"
  fb_batter :: "string option"
  fb_pitcher :: "string option"
  fb_outs :: "int option"

definition inferPlayRowFields :: "(string \<Rightarrow> string) \<Rightarrow> cell list \<Rightarrow> FallbackPlayFields" where
  "inferPlayRowFields dec cells =
     (let values0 = List.map_filter (toOptionalString dec) cells in
      if values0 = [] then
        \<lparr>fb_play = None, fb_scoringDecision = None, fb_batter = None, fb_pitcher = None, fb_outs = None\<rparr>
      else
        let popped = (rx_test (seqs [Bol, Cls is_digit, Eol]) (last values0) \<and>
                      parse_digits (last values0) \<le> 3);
            outs = (if popped then Some (int (parse_digits (last values0))) else None);
            values1 = (if popped then butlast values0 else values0)
        in
        if values1 = [] then
          \<lparr>fb_play = None, fb_scoringDecision = None, fb_batter = None, fb_pitcher = None, fb_outs = outs\<rparr>
        else
          let values2 = (if length values1 \<ge> 2 \<and> isLikelyActionCode dec (values1 ! 0) \<and>
                            isLikelyPlayText dec (values1 ! 1)
                         then tl values1 else values1);
              play = Some (hd values2);
              remainder = tl values2;
              named = (length remainder \<ge> 2 \<and> isLikelyPlayerName dec (last remainder) \<and>
                       isLikelyPlayerName dec (last (butlast remainder)));
              scoringParts = filter (\<lambda>entry. \<not> isLikelyActionCode dec entry)
                               (butlast (butlast remainder));
              scoringDecision0 = (if named \<and> length scoringParts > 0
                                  then Some (join '' '' scoringParts) else None);
              scoringDecision = (if \<not> truthy scoringDecision0 \<and> length remainder > 0 \<and>
                                    \<not> isLikelyPlayerName dec (hd remainder)
                                 then Some (hd remainder) else scoringDecision0)
          in \<lparr>fb_play = play,
              fb_scoringDecision = scoringDecision,
              fb_batter = (if named then Some (last (butlast remainder)) else None),
              fb_pitcher = (if named then Some (last remainder) else None),
              fb_outs = outs\<rparr>)"

definition isInvalidParsedPlay ::
  "(string \<Rightarrow> string) \<Rightarrow> string option \<Rightarrow> string option \<Rightarrow> string option \<Rightarrow> string option \<Rightarrow>
   int option \<Rightarrow> bool" where
  "isInvalidParsedPlay dec play firstCell batter pitcher outs =
     (if \<not> truthy play \<or> rx_test all_digits (the play) then True
      else if truthy batter \<and> rx_test all_digits (the batter) then True
      else if truthy firstCell \<and> play = batter \<and>
              length (the firstCell) > length (the play) + 6 then True
      else if truthy firstCell \<and> play \<noteq> firstCell \<and> isLikelyPlayText dec (the firstCell) \<and>
              \<not> isLikelyPlayText dec (the play) then True
      else if CHR '' '' \<notin> set (the play) \<and> \<not> truthy pitcher \<and> outs = None \<and>
              truthy firstCell \<and> isLikelyPlayText dec (the firstCell) then True
      else False)"

definition parseHalfAndInning :: "(string \<Rightarrow> string) \<Rightarrow> string \<Rightarrow> (half \<times> int) option" where
  \<comment> \<open>\<open>/(top|bottom|bot)\s+of\s+the\s+(\d+)/i\<close>; both fields of a result are set.\<close>
  "parseHalfAndInning dec v =
     (case rx_exec (seqs [Grp 1 (alts [LitI ''top'', LitI ''bottom'', LitI ''bot'']),
                          Plus is_space, LitI ''of'', Plus is_space, LitI ''the'', Plus is_space,
                          Grp 2 (Plus is_digit)]) (cleanText dec v) of
        None \<Rightarrow> None
      | Some (i, q, r, cs) \<Rightarrow>
          Some (if rx_test (Seq Bol (LitI ''top'')) (group cs 1) then Top else Bottom,
                int (parse_digits (group cs 2))))"

definition parseInningFromTitle :: "(string \<Rightarrow> string) \<Rightarrow> string \<Rightarrow> int option" where
  \<comment> \<open>\<open>/(\d+)(?:st|nd|rd|th)?\s+inning/i\<close>\<close>
  "parseInningFromTitle dec title =
     (case rx_exec (seqs [Grp 1 (Plus is_digit),
                          Opt (alts [LitI ''st'', LitI ''nd'', LitI ''rd'', LitI ''th'']),
                          Plus is_space, LitI ''inning'']) (cleanText dec title) of
        None \<Rightarrow> None
      | Some (i, q, r, cs) \<Rightarrow> Some (int (parse_digits (group cs 1))))"

definition isSubstitutionText :: "(string \<Rightarrow> string) \<Rightarrow> string \<Rightarrow> bool" where
  "isSubstitutionText dec v =
     (let t = cleanText dec v
      in if t = [] then False
         else
           rx_test (seqs [WordB, LitI ''pinch'', Plus is_space,
                          alts [LitI ''ran'', LitI ''runner'', LitI ''hit''],
                          Plus is_space, LitI ''for'', WordB]) t \<or>
           rx_test (seqs [WordB, LitI ''to'', Plus is_space,
                          alts (map LitI [''p'', ''c'', ''1b'', ''2b'', ''3b'', ''ss'', ''lf'', ''cf'',
                                          ''rf'', ''dh'', ''ph'', ''pr'']),
                          Plus is_space, LitI ''for'', WordB]) t \<or>
           rx_test (seqs [WordB, LitI ''sub'', Opt (LitI ''stitution''), WordB]) t)"

record ParsedPlayRow =
  pr_inning :: "int option"
  pr_half :: "half option"
  pr_text :: string
  pr_isSubstitution :: bool
  pr_scoringDecision :: "string option"
  pr_batter :: "string option"
  pr_pitcher :: "string option"
  pr_outs :: "int option"

datatype ParsedRow = ParsedHalfRow half | ParsedPlay ParsedPlayRow

definition firstCellOf :: "cell list \<Rightarrow> cell list \<Rightarrow> cell" where
  \<comment> \<open>\<open>aligned[0] ?? row.cells[0] ?? null\<close>\<close>
  "firstCellOf aligned cells = (if cellAt aligned 0 \<noteq> CellNull then cellAt aligned 0 else cellAt cells 0)"

definition parsePlayRow :: "(string \<Rightarrow> string) \<Rightarrow> StatsTable \<Rightarrow> StatsTableRow \<Rightarrow> ParsedRow option" where
  "parsePlayRow dec table row =
     (if isHeaderPlaceholderRow dec table row then None
      else
        let aligned = alignCellsToHeaders dec (tb_headers table) (tr_cells row);
            firstCell = toOptionalString dec (firstCellOf aligned (tr_cells row));
            fallback = inferPlayRowFields dec (tr_cells row);
            play0 = toOptionalString dec (readTableCellByHeader dec table row playHeader);
            scoringDecision0 = toOptionalString dec (readTableCellByHeader dec table row scoringHeader);
            batter0 = toOptionalString dec (readTableCellByHeader dec table row batterHeader);
            pitcher0 = toOptionalString dec (readTableCellByHeader dec table row pitcherHeader);
            outs0 = toOptionalNumber dec (readTableCellByHeader dec table row outsHeader);
            invalid = isInvalidParsedPlay dec play0 firstCell batter0 pitcher0 outs0;
            play = (if invalid then orElse (fb_play fallback) play0 else play0);
            scoringDecision = (if invalid then orElse (fb_scoringDecision fallback) scoringDecision0
                               else scoringDecision0);
            batter = (if invalid then orElse (fb_batter fallback) batter0 else batter0);
            pitcher = (if invalid then orElse (fb_pitcher fallback) pitcher0 else pitcher0);
            outs = (if invalid then orElse (fb_outs fallback) outs0 else outs0)
        in
        if truthy firstCell \<and>
           rx_test (Alt (Seq Bol (LitI ''top of the'')) (Seq Bol (LitI ''bottom of the''))) (the firstCell)
        then Some (ParsedHalfRow (if rx_test (Seq Bol (LitI ''top'')) (the firstCell) then Top else Bottom))
        else if truthy firstCell \<and> rx_test (LitI ''inning summary:'') (the firstCell) then None
        else if \<not> truthy play \<or> toLowerCase (the play) = ''play'' then None
        else if rx_test all_digits (the play) then None
        else
          let halfAndInning = (if truthy firstCell then parseHalfAndInning dec (the firstCell) else None)
          in Some (ParsedPlay
               \<lparr>pr_inning = map_option snd halfAndInning,
                pr_half = map_option fst halfAndInning,
                pr_text = the play,
                pr_isSubstitution = isSubstitutionText dec (the play),
                pr_scoringDecision = scoringDecision,
                pr_batter = batter,
                pr_pitcher = pitcher,
                pr_outs = outs\<rparr>))"

definition normalizeSignatureValue :: "(string \<Rightarrow> string) \<Rightarrow> string option \<Rightarrow> string" where
  \<comment> \<open>The argument is \<open>String(value)\<close>, or nothing for \<open>null\<close>.\<close>
  "normalizeSignatureValue dec v =
     (case v of None \<Rightarrow> [] | Some s \<Rightarrow> toLowerCase (cleanText dec s))"

definition buildSignature ::
  "(string \<Rightarrow> string) \<Rightarrow> int option \<Rightarrow> half option \<Rightarrow> string \<Rightarrow> string option \<Rightarrow> string option \<Rightarrow>
   int option \<Rightarrow> string option \<Rightarrow> string" where
  \<comment> \<open>The value of \<open>signature\<close> in \<open>extractLivePlayEvents\<close>.\<close>
  "buildSignature dec inning hf t batter pitcher outs scoringDecision =
     normalizeSignatureValue dec (map_option int_to_string inning) @ ''|'' @
     normalizeSignatureValue dec (map_option half_string hf) @ ''|'' @
     normalizeSignatureValue dec (Some t) @ ''|'' @
     normalizeSignatureValue dec batter @ ''|'' @
     normalizeSignatureValue dec pitcher @ ''|'' @
     normalizeSignatureValue dec (map_option int_to_string outs) @ ''|'' @
     normalizeSignatureValue dec scoringDecision"

record ExtractState =
  ex_events :: "LivePlayEvent list"
  ex_occurrenceBySignature :: "string \<rightharpoonup> nat"
  ex_order :: int

definition emitPlay ::
  "(string \<Rightarrow> string) \<Rightarrow> (string \<Rightarrow> string) \<Rightarrow> string \<Rightarrow> int option \<Rightarrow> half option \<Rightarrow>
   ParsedPlayRow \<Rightarrow> ExtractState \<Rightarrow> ExtractState" where
  \<comment> \<open>The rest of the loop body, for a row that is a play.\<close>
  "emitPlay dec digest title inningFromTitle currentHalf parsed st =
     (let inning = orElse (pr_inning parsed) inningFromTitle;
          hf = orElse (pr_half parsed) currentHalf;
          signature = buildSignature dec inning hf (pr_text parsed) (pr_batter parsed)
                        (pr_pitcher parsed) (pr_outs parsed) (pr_scoringDecision parsed);
          occurrence = (case ex_occurrenceBySignature st signature of None \<Rightarrow> 0 | Some n \<Rightarrow> n) + 1;
          order' = ex_order st + 1
      in \<lparr>ex_events = ex_events st @
            [\<lparr>lp_key = digest (signature @ ''|'' @ nat_to_string occurrence),
              lp_order = order',
              lp_inning = inning,
              lp_half = hf,
              lp_isSubstitution = pr_isSubstitution parsed,
              lp_text = pr_text parsed,
              lp_scoringDecision = pr_scoringDecision parsed,
              lp_batter = pr_batter parsed,
              lp_pitcher = pr_pitcher parsed,
              lp_outs = pr_outs parsed,
              lp_sectionTitle = title\<rparr>],
          ex_occurrenceBySignature = (ex_occurrenceBySignature st)(signature \<mapsto> occurrence),
          ex_order = order'\<rparr>)"

definition extractRow ::
  "(string \<Rightarrow> string) \<Rightarrow> (string \<Rightarrow> string) \<Rightarrow> string \<Rightarrow> int option \<Rightarrow> StatsTable \<Rightarrow> StatsTableRow \<Rightarrow>
   ExtractState \<times> half option \<Rightarrow> ExtractState \<times> half option" where
  \<comment> \<open>The body of \<open>for (const row of table.rows)\<close>; the second component is \<open>currentHalf\<close>.\<close>
  "extractRow dec digest title inningFromTitle table row acc =
     (case parsePlayRow dec table row of
        None \<Rightarrow> acc
      | Some (ParsedHalfRow h) \<Rightarrow> (fst acc, Some h)
      | Some (ParsedPlay parsed) \<Rightarrow>
          (emitPlay dec digest title inningFromTitle (snd acc) parsed (fst acc), snd acc))"

definition extractTable ::
  "(string \<Rightarrow> string) \<Rightarrow> (string \<Rightarrow> string) \<Rightarrow> string \<Rightarrow> int option \<Rightarrow> StatsTable \<Rightarrow>
   ExtractState \<Rightarrow> ExtractState" where
  "extractTable dec digest title inningFromTitle table st =
     fst (fold (extractRow dec digest title inningFromTitle table) (tb_rows table) (st, None))"

definition extractSection ::
  "(string \<Rightarrow> string) \<Rightarrow> (string \<Rightarrow> string) \<Rightarrow> StatsSection \<Rightarrow> ExtractState \<Rightarrow> ExtractState" where
  "extractSection dec digest section' st =
     (if \<not> rx_test (LitI ''play-by-play'') (sec_title section') then st
      else fold (extractTable dec digest (sec_title section')
                   (parseInningFromTitle dec (sec_title section')))
             (sec_tables section') st)"

definition extractLivePlayEvents ::
  "(string \<Rightarrow> string) \<Rightarrow> (string \<Rightarrow> string) \<Rightarrow> StatBroadcastLiveStats \<Rightarrow> LivePlayEvent list" where
  "extractLivePlayEvents dec digest liveStats =
     ex_events (fold (extractSection dec digest) (ls_sections liveStats)
                  \<lparr>ex_events = [], ex_occurrenceBySignature = Map.empty, ex_order = 0\<rparr>)"

subsection \<open>The key assignment in the words of the specification\<close>

definition eventSignature :: "(string \<Rightarrow> string) \<Rightarrow> LivePlayEvent \<Rightarrow> string" where
  \<comment> \<open>The signature of an extracted play: inning, half, play text, batter, pitcher, outs
     and scoring decision, each normalised.\<close>
  "eventSignature dec e =
     buildSignature dec (lp_inning e) (lp_half e) (lp_text e) (lp_batter e) (lp_pitcher e)
       (lp_outs e) (lp_scoringDecision e)"

definition occurrenceAt :: "string list \<Rightarrow> nat \<Rightarrow> nat" where
  \<comment> \<open>How often the signature at position \<open>k\<close> has occurred up to and including \<open>k\<close>.\<close>
  "occurrenceAt sigs k = Suc (count_list (take k sigs) (sigs ! k))"

definition occurrences :: "string list \<Rightarrow> string \<rightharpoonup> nat" where
  \<comment> \<open>The running counter: how often each signature has been seen, nothing for none.\<close>
  "occurrences sigs = (\<lambda>s. if count_list sigs s = 0 then None else Some (count_list sigs s))"

definition hashedStrings :: "string list \<Rightarrow> string list" where
  \<comment> \<open>What is hashed for each play: its signature and its occurrence.\<close>
  "hashedStrings sigs =
     map (\<lambda>k. sigs ! k @ ''|'' @ nat_to_string (occurrenceAt sigs k)) [0 ..< length sigs]"

definition keysAssigned :: "(string \<Rightarrow> string) \<Rightarrow> (string \<Rightarrow> string) \<Rightarrow> ExtractState \<Rightarrow> bool" where
  \<comment> \<open>What the loops of \<open>extractLivePlayEvents\<close> maintain: every key so far is the hash of
     signature and occurrence, and the counter holds the occurrences so far.\<close>
  "keysAssigned dec digest st =
     (map lp_key (ex_events st) =
        map digest (hashedStrings (map (eventSignature dec) (ex_events st))) \<and>
      ex_occurrenceBySignature st = occurrences (map (eventSignature dec) (ex_events st)))"

definition identity_digest :: "string \<Rightarrow> string" where
  \<comment> \<open>An injective stand-in for the hash: the key shows what is hashed.\<close>
  "identity_digest s = s"

definition example_stats :: "string \<Rightarrow> StatBroadcastLiveStats" where
  \<comment> \<open>Three times the same ground-out: the second differs in the outs, the third repeats
     the second.\<close>
  "example_stats fetchedAt =
     \<lparr>ls_id = 1, ls_view = ''plays'',
      ls_sections =
        [\<lparr>sec_title = ''3rd Inning Play-by-play'',
          sec_tables =
            [\<lparr>tb_headers = ['''', ''Play'', ''Scoring Dec.'', ''Batter'', ''Pitcher'', ''Outs''],
              tb_rows =
                [\<lparr>tr_cells = [CellString ''Top of the 3rd'', CellNull, CellNull, CellNull, CellNull,
                              CellNull]\<rparr>,
                 \<lparr>tr_cells = [CellNull, CellString ''Miller grounded out to short'', CellNull,
                              CellString ''Miller'', CellString ''Adams'', CellNumber 1]\<rparr>,
                 \<lparr>tr_cells = [CellNull, CellString ''Miller grounded out to short'', CellNull,
                              CellString ''Miller'', CellString ''Adams'', CellNumber 2]\<rparr>,
                 \<lparr>tr_cells = [CellNull, CellString ''Miller grounded out to short'', CellNull,
                              CellString ''Miller'', CellString ''Adams'', CellNumber 2]\<rparr>]\<rparr>]\<rparr>],
      ls_fetchedAt = fetchedAt\<rparr>"

section \<open>Facts about the regular expression matcher\<close>

lemma rx_search_Bol_later: "rx_search (Seq Bol r) i (Some c) rest = None"
  by (induction rest arbitrary: i c) (simp_all add: rx_at_def)

lemma rx_test_Bol: "rx_test (Seq Bol r) s = (rx_run r (None, s, []) \<noteq> [])"
  by (cases s) (auto simp: rx_test_def rx_exec_def rx_at_def rx_search_Bol_later split: list.splits)

section \<open>The derived play states stay in range\<close>

lemma score_in_range_self: "score_in_range b b"
  by (simp add: score_in_range_def)

lemma score_in_range_sub:
  "score_in_range b (Some a) \<Longrightarrow> score_in_range b (Some (max 0 (a - int r)))"
  by (auto simp: score_in_range_def)

lemma clampOuts_range: "outs_in_range (Some (clampOuts v))"
  by (simp add: outs_in_range_def clampOuts_def)

lemma initialStates_fold_scores:
  "(\<forall>k st. m k = Some st \<longrightarrow> awayScore st = va \<and> homeScore st = vh) \<Longrightarrow>
   \<forall>k st. fold (\<lambda>play m. m(lp_key play \<mapsto>
             \<lparr>awayScore = va, homeScore = vh, outsAfterPlay = lp_outs play\<rparr>)) plays m k = Some st
     \<longrightarrow> awayScore st = va \<and> homeScore st = vh"
proof (induction plays arbitrary: m)
  case Nil
  then show ?case by simp
next
  case (Cons p ps)
  show ?case
    unfolding fold_simps
    by (rule Cons.IH) (use Cons.prems in \<open>auto split: if_splits\<close>)
qed

lemma initialStates_fold_dom:
  "dom (fold (\<lambda>play m. m(lp_key play \<mapsto> f play)) plays m) = dom m \<union> lp_key ` set plays"
  by (induction plays arbitrary: m) auto

lemma initialStates_dom: "dom (initialStates plays summary) = lp_key ` set plays"
  by (simp add: initialStates_def initialStates_fold_dom)

lemma initialStates_scores:
  "initialStates plays summary k = Some st \<Longrightarrow>
   awayScore st = sm_visitorScore summary \<and> homeScore st = sm_homeScore summary"
  unfolding initialStates_def using initialStates_fold_scores[of Map.empty] by blast

lemma scoreStep_ok: "scores_ok summary acc \<Longrightarrow> scores_ok summary (scoreStep dec plays i acc)"
  by (cases acc)
     (auto simp: scores_ok_def scoreStep_def Let_def score_in_range_sub split: option.splits)

lemma scoreStep_dom: "dom (snd (snd (scoreStep dec plays i acc))) = dom (snd (snd acc))"
  by (cases acc) (auto simp: scoreStep_def Let_def split: option.splits)

lemma score_fold_ok:
  "scores_ok summary acc \<Longrightarrow> scores_ok summary (fold (scoreStep dec plays) is acc)"
  by (induction "is" arbitrary: acc) (auto simp: scoreStep_ok)

lemma score_fold_dom:
  "dom (snd (snd (fold (scoreStep dec plays) is acc))) = dom (snd (snd acc))"
  by (induction "is" arbitrary: acc) (auto simp: scoreStep_dom)

lemma outsStep_dom: "dom (outsStep dec plays i m) = dom m"
  by (auto simp: outsStep_def Let_def split: option.splits if_splits)

lemma outs_fold_dom: "dom (fold (outsStep dec plays) is m) = dom m"
  by (induction "is" arbitrary: m) (auto simp: outsStep_dom)

lemma outsStep_scores:
  "outsStep dec plays i m k = Some st \<Longrightarrow>
   \<exists>st0. m k = Some st0 \<and> awayScore st = awayScore st0 \<and> homeScore st = homeScore st0"
  by (auto simp: outsStep_def Let_def split: option.splits if_splits)

lemma outs_fold_scores:
  "fold (outsStep dec plays) is m k = Some st \<Longrightarrow>
   \<exists>st0. m k = Some st0 \<and> awayScore st = awayScore st0 \<and> homeScore st = homeScore st0"
proof (induction "is" arbitrary: m st)
  case Nil
  then show ?case by simp
next
  case (Cons i "is")
  from Cons.IH[OF Cons.prems[simplified]] obtain st1 where
    "outsStep dec plays i m k = Some st1" "awayScore st = awayScore st1"
    "homeScore st = homeScore st1"
    by auto
  with outsStep_scores[of dec plays i m k st1] show ?case by auto
qed

lemma outsStep_at:
  "outsStep dec plays i m (lp_key (plays ! i)) = Some st \<Longrightarrow> outs_in_range (outsAfterPlay st)"
  by (auto simp: outsStep_def Let_def outs_in_range_def clampOuts_def
           split: option.splits if_splits)

lemma outsStep_other: "k \<noteq> lp_key (plays ! i) \<Longrightarrow> outsStep dec plays i m k = m k"
  by (auto simp: outsStep_def Let_def split: option.splits if_splits)

lemma outs_fold_visited:
  "fold (outsStep dec plays) is m k = Some st \<Longrightarrow>
   k \<in> (\<lambda>i. lp_key (plays ! i)) ` set is \<Longrightarrow> outs_in_range (outsAfterPlay st)"
proof (induction "is" arbitrary: st rule: rev_induct)
  case Nil
  then show ?case by simp
next
  case (snoc i "is")
  show ?case
  proof (cases "k = lp_key (plays ! i)")
    case True
    with snoc.prems(1) show ?thesis by (auto dest: outsStep_at)
  next
    case False
    with snoc.prems have "fold (outsStep dec plays) is m k = Some st"
      "k \<in> (\<lambda>i. lp_key (plays ! i)) ` set is"
      by (auto simp: outsStep_other)
    then show ?thesis by (rule snoc.IH)
  qed
qed

lemma keys_as_indices:
  "lp_key ` set plays = (\<lambda>i. lp_key (plays ! i)) ` set [0 ..< length plays]"
  by (force simp: in_set_conv_nth)

text \<open>
  Claim C10. Every state that \<open>deriveLivePlayStates\<close> returns has an
  \<open>outsAfterPlay\<close> that is null or an integer from 0 to 3; and when the summary's
  visitor (home) score is a non-negative number, the state's \<open>awayScore\<close>
  (\<open>homeScore\<close>) is a number from 0 to that score.
\<close>

theorem deriveLivePlayStates_ranges:
  assumes "deriveLivePlayStates dec plays summary k = Some st"
  shows "(outsAfterPlay st = None \<or> (\<exists>n. outsAfterPlay st = Some n \<and> 0 \<le> n \<and> n \<le> 3)) \<and>
         (\<forall>v. sm_visitorScore summary = Some v \<and> 0 \<le> v \<longrightarrow>
              (\<exists>a. awayScore st = Some a \<and> 0 \<le> a \<and> a \<le> v)) \<and>
         (\<forall>v. sm_homeScore summary = Some v \<and> 0 \<le> v \<longrightarrow>
              (\<exists>h. homeScore st = Some h \<and> 0 \<le> h \<and> h \<le> v))"
proof -
  define acc0 where
    "acc0 = (sm_visitorScore summary, sm_homeScore summary, initialStates plays summary)"
  define acc1 where "acc1 = fold (scoreStep dec plays) (rev [0 ..< length plays]) acc0"
  define m1 where "m1 = snd (snd acc1)"
  have fin: "fold (outsStep dec plays) [0 ..< length plays] m1 k = Some st"
    using assms by (simp add: deriveLivePlayStates_def Let_def acc0_def acc1_def m1_def)
  have ok0: "scores_ok summary acc0"
    by (auto simp: scores_ok_def acc0_def score_in_range_self dest: initialStates_scores)
  have ok1: "scores_ok summary acc1"
    unfolding acc1_def by (rule score_fold_ok[OF ok0])
  have dom1: "dom m1 = lp_key ` set plays"
    by (simp add: m1_def acc1_def score_fold_dom acc0_def initialStates_dom)
  have "k \<in> dom (fold (outsStep dec plays) [0 ..< length plays] m1)"
    using fin by blast
  then have "k \<in> (\<lambda>i. lp_key (plays ! i)) ` set [0 ..< length plays]"
    by (simp only: outs_fold_dom dom1 keys_as_indices)
  from outs_fold_visited[OF fin this] have outs: "outs_in_range (outsAfterPlay st)" .
  from outs_fold_scores[OF fin] obtain st0 where
    st0: "m1 k = Some st0" "awayScore st = awayScore st0" "homeScore st = homeScore st0"
    by auto
  from ok1 st0 have "score_in_range (sm_visitorScore summary) (awayScore st)"
    "score_in_range (sm_homeScore summary) (homeScore st)"
    by (cases acc1; auto simp: scores_ok_def m1_def)+
  with outs show ?thesis
    by (simp add: outs_in_range_def score_in_range_def)
qed

theorem deriveLivePlayStates_ranges_witness:
  "deriveLivePlayStates no_entities example_plays example_summary ''k1'' =
     Some \<lparr>awayScore = Some 7, homeScore = Some 10, outsAfterPlay = Some 1\<rparr> \<and>
   sm_visitorScore example_summary = Some 7 \<and> sm_homeScore example_summary = Some 10 \<and>
   (0::int) \<le> 1 \<and> (1::int) \<le> 3 \<and> (0::int) \<le> 7 \<and> (7::int) \<le> 7 \<and> (0::int) \<le> 10 \<and> (10::int) \<le> 10"
proof -
  have run: "deriveLivePlayStates no_entities example_plays example_summary ''k1'' =
     Some \<lparr>awayScore = Some 7, homeScore = Some 10, outsAfterPlay = Some 1\<rparr>"
    by code_simp
  have sm: "sm_visitorScore example_summary = Some 7 \<and> sm_homeScore example_summary = Some 10"
    by (simp add: example_summary_def)
  from deriveLivePlayStates_ranges[OF run] sm run show ?thesis by simp
qed

section \<open>The tweet text\<close>

lemma length_trimEnd: "length (trimEnd s) \<le> length s"
  unfolding trimEnd_def using length_dropWhile_le[of is_space "rev s"] by simp

lemma trimEnd_prefix: "\<exists>rest. s = trimEnd s @ rest"
proof -
  have "rev s = takeWhile is_space (rev s) @ dropWhile is_space (rev s)" by simp
  then have "s = rev (dropWhile is_space (rev s)) @ rev (takeWhile is_space (rev s))"
    by (metis rev_append rev_rev_ident)
  then show ?thesis unfolding trimEnd_def by blast
qed

lemma trimToTweetLength_bound:
  assumes "3 \<le> n"
  shows "int (length (trimToTweetLength t n)) \<le> n"
proof (cases "int (length t) \<le> n")
  case True
  then show ?thesis by (simp add: trimToTweetLength_def)
next
  case False
  have "length (trimEnd (take (nat (max 0 (n - 3))) t)) \<le> nat (max 0 (n - 3))"
    using length_trimEnd[of "take (nat (max 0 (n - 3))) t"] by simp
  with False assms show ?thesis by (simp add: trimToTweetLength_def)
qed

lemma trimToTweetLength_shape:
  "(int (length t) \<le> n \<longrightarrow> trimToTweetLength t n = t) \<and>
   (n < int (length t) \<longrightarrow>
      (\<exists>pre rest. t = pre @ rest \<and> trimToTweetLength t n = pre @ ''...''))"
proof -
  obtain r1 where
    r1: "take (nat (max 0 (n - 3))) t = trimEnd (take (nat (max 0 (n - 3))) t) @ r1"
    using trimEnd_prefix by blast
  have "t = trimEnd (take (nat (max 0 (n - 3))) t) @ (r1 @ drop (nat (max 0 (n - 3))) t)"
    using r1 by (metis append_assoc append_take_drop_id)
  then show ?thesis by (auto simp: trimToTweetLength_def)
qed

lemma clampTweetLength_range: "20 \<le> clampTweetLength n \<and> clampTweetLength n \<le> 280"
  by (simp add: clampTweetLength_def)

lemma clampTweetLength_le: "20 \<le> n \<Longrightarrow> clampTweetLength n \<le> n"
  by (simp add: clampTweetLength_def)

text \<open>
  Claim C8, as amended. The text returned by \<open>buildPlayTweetText\<close> and by
  \<open>buildFinalTweetText\<close> is never longer than the effective limit, which is the given
  \<open>maxLength\<close> (280 when none is given) clamped to the range from 20 to 280; so it is
  never longer than a given \<open>maxLength\<close> of 20 or more. When the composed blocks are
  longer than the effective limit, the text is a prefix of them followed by three dots;
  otherwise it is the composed blocks.
\<close>

theorem tweet_length_bound:
  "int (length (buildPlayTweetText dec nnit pin))
     \<le> clampTweetLength (orDefault (pi_maxLength pin) 280) \<and>
   int (length (buildFinalTweetText dec fin))
     \<le> clampTweetLength (orDefault (fi_maxLength fin) 280) \<and>
   (\<forall>n. pi_maxLength pin = Some n \<and> 20 \<le> n \<longrightarrow>
        int (length (buildPlayTweetText dec nnit pin)) \<le> n) \<and>
   (\<forall>n. fi_maxLength fin = Some n \<and> 20 \<le> n \<longrightarrow>
        int (length (buildFinalTweetText dec fin)) \<le> n) \<and>
   (let composed = join [CHR 0x0A, CHR 0x0A]
          (filter (\<lambda>block. length block > 0) (playTweetBlocks dec nnit pin));
        limit = clampTweetLength (orDefault (pi_maxLength pin) 280)
    in (int (length composed) \<le> limit \<longrightarrow> buildPlayTweetText dec nnit pin = composed) \<and>
       (limit < int (length composed) \<longrightarrow>
          (\<exists>pre rest. composed = pre @ rest \<and>
                      buildPlayTweetText dec nnit pin = pre @ ''...''))) \<and>
   (let composed = join [CHR 0x0A] (finalTweetLines dec fin);
        limit = clampTweetLength (orDefault (fi_maxLength fin) 280)
    in (int (length composed) \<le> limit \<longrightarrow> buildFinalTweetText dec fin = composed) \<and>
       (limit < int (length composed) \<longrightarrow>
          (\<exists>pre rest. composed = pre @ rest \<and>
                      buildFinalTweetText dec fin = pre @ ''...'')))"
proof -
  have three: "\<And>n. 3 \<le> clampTweetLength n"
    by (simp add: clampTweetLength_def)
  have p: "int (length (buildPlayTweetText dec nnit pin))
             \<le> clampTweetLength (orDefault (pi_maxLength pin) 280)"
    unfolding buildPlayTweetText_def Let_def by (rule trimToTweetLength_bound[OF three])
  have f: "int (length (buildFinalTweetText dec fin))
             \<le> clampTweetLength (orDefault (fi_maxLength fin) 280)"
    unfolding buildFinalTweetText_def Let_def by (rule trimToTweetLength_bound[OF three])
  have pn: "\<forall>n. pi_maxLength pin = Some n \<and> 20 \<le> n \<longrightarrow>
                int (length (buildPlayTweetText dec nnit pin)) \<le> n"
    using p clampTweetLength_le by (fastforce simp: orDefault_def)
  have fn: "\<forall>n. fi_maxLength fin = Some n \<and> 20 \<le> n \<longrightarrow>
                int (length (buildFinalTweetText dec fin)) \<le> n"
    using f clampTweetLength_le by (fastforce simp: orDefault_def)
  have ps: "(let composed = join [CHR 0x0A, CHR 0x0A]
          (filter (\<lambda>block. length block > 0) (playTweetBlocks dec nnit pin));
        limit = clampTweetLength (orDefault (pi_maxLength pin) 280)
    in (int (length composed) \<le> limit \<longrightarrow> buildPlayTweetText dec nnit pin = composed) \<and>
       (limit < int (length composed) \<longrightarrow>
          (\<exists>pre rest. composed = pre @ rest \<and>
                      buildPlayTweetText dec nnit pin = pre @ ''...'')))"
    unfolding buildPlayTweetText_def Let_def by (rule trimToTweetLength_shape)
  have fs: "(let composed = join [CHR 0x0A] (finalTweetLines dec fin);
        limit = clampTweetLength (orDefault (fi_maxLength fin) 280)
    in (int (length composed) \<le> limit \<longrightarrow> buildFinalTweetText dec fin = composed) \<and>
       (limit < int (length composed) \<longrightarrow>
          (\<exists>pre rest. composed = pre @ rest \<and>
                      buildFinalTweetText dec fin = pre @ ''...'')))"
    unfolding buildFinalTweetText_def Let_def by (rule trimToTweetLength_shape)
  from p f pn fn ps fs show ?thesis by blast
qed

theorem tweet_length_bound_witness:
  "pi_maxLength example_play_input = Some 40 \<and> (20::int) \<le> 40 \<and>
   int (length (buildPlayTweetText no_entities (\<lambda>t names. t) example_play_input)) \<le> 40 \<and>
   fi_maxLength (short_limit_input\<lparr>fi_maxLength := Some 25\<rparr>) = Some 25 \<and> (20::int) \<le> 25 \<and>
   int (length (buildFinalTweetText no_entities (short_limit_input\<lparr>fi_maxLength := Some 25\<rparr>))) \<le> 25"
proof -
  have m: "pi_maxLength example_play_input = Some 40"
    by (simp add: example_play_input_def)
  from tweet_length_bound[of no_entities "\<lambda>t names. t" example_play_input
         "short_limit_input\<lparr>fi_maxLength := Some 25\<rparr>"] m
  show ?thesis by simp
qed

text \<open>
  The claim as stated fails for a given \<open>maxLength\<close> below 20: with \<open>maxLength = 10\<close>
  the final tweet for Wake Forest 4, Houston 6 is the 20 characters
  \<open>Final\nWake Forest...\<close>.
\<close>

theorem tweet_length_counterexample:
  "fi_maxLength short_limit_input = Some 10 \<and>
   buildFinalTweetText no_entities short_limit_input = ''Final'' @ [CHR 0x0A] @ ''Wake Forest...'' \<and>
   length (buildFinalTweetText no_entities short_limit_input) = 20"
  by code_simp

lemma mid_or_end_Mid: "rx_test mid_or_end (''Mid '' @ t)"
  unfolding mid_or_end_def seqs.simps rx_test_Bol
  by (simp add: word_before_def word_after_def is_word_def is_alpha_def is_lower_def
        is_upper_def is_digit_def)

lemma mid_or_end_End: "rx_test mid_or_end (''End '' @ t)"
  unfolding mid_or_end_def seqs.simps rx_test_Bol
  by (simp add: word_before_def word_after_def is_word_def is_alpha_def is_lower_def
        is_upper_def is_digit_def)

lemma mid_or_end_Top: "\<not> rx_test mid_or_end (''Top '' @ t)"
  unfolding mid_or_end_def seqs.simps rx_test_Bol by simp

lemma mid_or_end_Bottom: "\<not> rx_test mid_or_end (''Bottom '' @ t)"
  unfolding mid_or_end_def seqs.simps rx_test_Bol by simp

lemma capitalize_top: "capitalize ''top'' = ''Top''"
  by code_simp

lemma capitalize_bottom: "capitalize ''bottom'' = ''Bottom''"
  by code_simp

text \<open>
  Claim C9. For a play with a known inning and half, the inning label is
  \<open>Mid\<close> + ordinal when the half is top, the outs after the play are 3 and the play
  is not a substitution, \<open>End\<close> + ordinal when the half is bottom under the same
  conditions, and \<open>Top\<close> or \<open>Bottom\<close> + ordinal otherwise; the header line is the
  label alone exactly in the Mid/End case and carries the outs suffix otherwise.
\<close>

theorem inning_label_and_header:
  assumes "lp_inning play = Some n" and "lp_half play = Some h"
  shows "buildInningLabel dec play outs summary =
           (if outs = Some 3 \<and> \<not> lp_isSubstitution play
            then (if h = Top then ''Mid '' else ''End '') @ ordinal n
            else (if h = Top then ''Top '' else ''Bottom '') @ ordinal n) \<and>
         formatHeaderLine (buildInningLabel dec play outs summary) outs =
           (if outs = Some 3 \<and> \<not> lp_isSubstitution play
            then buildInningLabel dec play outs summary
            else buildInningLabel dec play outs summary @ '' | '' @ formatOutsLabel outs)"
proof -
  have label: "buildInningLabel dec play outs summary =
           (if outs = Some 3 \<and> \<not> lp_isSubstitution play
            then (if h = Top then ''Mid '' else ''End '') @ ordinal n
            else (if h = Top then ''Top '' else ''Bottom '') @ ordinal n)"
    using assms
    by (cases h) (simp_all add: buildInningLabel_def capitalize_top capitalize_bottom)
  show ?thesis
    unfolding label formatHeaderLine_def
    using mid_or_end_Mid[of "ordinal n"] mid_or_end_End[of "ordinal n"]
      mid_or_end_Top[of "ordinal n"] mid_or_end_Bottom[of "ordinal n"]
    by (simp del: append.simps)
qed

theorem inning_label_and_header_witness:
  "lp_inning (example_plays ! 2) = Some 9 \<and> lp_half (example_plays ! 2) = Some Top \<and>
   buildInningLabel no_entities (example_plays ! 2) (Some 3) example_summary = ''Mid 9th'' \<and>
   formatHeaderLine (buildInningLabel no_entities (example_plays ! 2) (Some 3) example_summary)
     (Some 3) = ''Mid 9th'' \<and>
   buildInningLabel no_entities (example_plays ! 0) (Some 1) example_summary = ''Top 9th'' \<and>
   formatHeaderLine (buildInningLabel no_entities (example_plays ! 0) (Some 1) example_summary)
     (Some 1) = ''Top 9th | 1 Out''"
proof -
  have p2: "lp_inning (example_plays ! 2) = Some 9" "lp_half (example_plays ! 2) = Some Top"
    "\<not> lp_isSubstitution (example_plays ! 2)"
    by (simp_all add: example_plays_def example_play_def)
  have p0: "lp_inning (example_plays ! 0) = Some 9" "lp_half (example_plays ! 0) = Some Top"
    by (simp_all add: example_plays_def example_play_def)
  have ord: "ordinal 9 = ''9th''" by code_simp
  have outs: "formatOutsLabel (Some 1) = ''1 Out''" by code_simp
  from inning_label_and_header[OF p2(1,2), of no_entities "Some 3" example_summary]
       inning_label_and_header[OF p0, of no_entities "Some 1" example_summary]
  show ?thesis using p2 p0 by (auto simp: ord outs)
qed

section \<open>The backward score pass\<close>

lemma estimateRuns_largest:
  "estimateRunsScoredOnPlay dec play =
     (if lp_isSubstitution play then 0 else runsLargestOf dec play)"
  by (auto simp: estimateRunsScoredOnPlay_def runsLargestOf_def homeRunPattern_def Let_def)

lemma scoreStep_undo:
  assumes "m (lp_key (plays ! j)) = Some st"
  shows "scoreStep dec plays j (a, h, m) =
           (fst (undoPlay dec (plays ! j) (a, h)), snd (undoPlay dec (plays ! j) (a, h)),
            m(lp_key (plays ! j) \<mapsto> st\<lparr>awayScore := a, homeScore := h\<rparr>))"
proof (cases "lp_half (plays ! j)")
  case None
  with assms show ?thesis
    by (simp add: scoreStep_def undoPlay_def Let_def estimateRuns_largest)
next
  case (Some hf)
  with assms show ?thesis
    by (cases hf; cases a; cases h)
       (simp_all add: scoreStep_def undoPlay_def Let_def estimateRuns_largest)
qed

lemma score_fold_walk:
  assumes dist: "distinct (map lp_key plays)"
    and dom0: "dom m0 = lp_key ` set plays"
    and j: "j \<le> length plays"
  shows "\<exists>m. fold (scoreStep dec plays) (rev [j ..< length plays]) (va, vh, m0) =
               (fst (fold (undoPlay dec) (rev (drop j plays)) (va, vh)),
                snd (fold (undoPlay dec) (rev (drop j plays)) (va, vh)), m) \<and>
             dom m = dom m0 \<and>
             (\<forall>i. j \<le> i \<and> i < length plays \<longrightarrow>
                (\<exists>st. m (lp_key (plays ! i)) = Some st \<and>
                   (awayScore st, homeScore st) =
                     fold (undoPlay dec) (rev (drop (Suc i) plays)) (va, vh)))"
  using j
proof (induction j rule: inc_induct)
  case base
  show ?case by auto
next
  case (step j)
  then obtain m where
    run: "fold (scoreStep dec plays) (rev [Suc j ..< length plays]) (va, vh, m0) =
               (fst (fold (undoPlay dec) (rev (drop (Suc j) plays)) (va, vh)),
                snd (fold (undoPlay dec) (rev (drop (Suc j) plays)) (va, vh)), m)"
    and dm: "dom m = dom m0"
    and later: "\<forall>i. Suc j \<le> i \<and> i < length plays \<longrightarrow>
                (\<exists>st. m (lp_key (plays ! i)) = Some st \<and>
                   (awayScore st, homeScore st) =
                     fold (undoPlay dec) (rev (drop (Suc i) plays)) (va, vh))"
    by blast
  define a where "a = fst (fold (undoPlay dec) (rev (drop (Suc j) plays)) (va, vh))"
  define h where "h = snd (fold (undoPlay dec) (rev (drop (Suc j) plays)) (va, vh))"
  have jn: "j < length plays" using step.hyps by simp
  have "lp_key (plays ! j) \<in> dom m" using dm dom0 jn by auto
  then obtain st where st: "m (lp_key (plays ! j)) = Some st" by blast
  have upt: "rev [j ..< length plays] = rev [Suc j ..< length plays] @ [j]"
    using jn by (simp add: upt_conv_Cons)
  have drp: "rev (drop j plays) = rev (drop (Suc j) plays) @ [plays ! j]"
    using jn by (simp add: Cons_nth_drop_Suc[symmetric])
  have undo: "fold (undoPlay dec) (rev (drop j plays)) (va, vh) = undoPlay dec (plays ! j) (a, h)"
    by (simp add: drp a_def h_def)
  let ?m' = "m(lp_key (plays ! j) \<mapsto> st\<lparr>awayScore := a, homeScore := h\<rparr>)"
  have res: "fold (scoreStep dec plays) (rev [j ..< length plays]) (va, vh, m0) =
               (fst (fold (undoPlay dec) (rev (drop j plays)) (va, vh)),
                snd (fold (undoPlay dec) (rev (drop j plays)) (va, vh)), ?m')"
    unfolding upt fold_append comp_apply run undo
    using scoreStep_undo[where m = m and plays = plays and j = j and st = st and dec = dec
            and a = a and h = h, OF st]
    by (simp add: a_def h_def)
  have dm': "dom ?m' = dom m0" using st dm by auto
  have states: "\<forall>i. j \<le> i \<and> i < length plays \<longrightarrow>
                (\<exists>st. ?m' (lp_key (plays ! i)) = Some st \<and>
                   (awayScore st, homeScore st) =
                     fold (undoPlay dec) (rev (drop (Suc i) plays)) (va, vh))"
  proof (intro allI impI)
    fix i assume i: "j \<le> i \<and> i < length plays"
    show "\<exists>st. ?m' (lp_key (plays ! i)) = Some st \<and>
                   (awayScore st, homeScore st) =
                     fold (undoPlay dec) (rev (drop (Suc i) plays)) (va, vh)"
    proof (cases "i = j")
      case True
      then show ?thesis by (simp add: a_def h_def)
    next
      case False
      with i have gt: "Suc j \<le> i \<and> i < length plays" by simp
      have "lp_key (plays ! i) \<noteq> lp_key (plays ! j)"
        using dist False i jn by (simp add: distinct_conv_nth)
      with later gt show ?thesis by simp
    qed
  qed
  from res dm' states show ?case by blast
qed

lemma recorded_score_is_running_score:
  assumes "distinct (map lp_key plays)" and "i < length plays"
  shows "\<exists>st. deriveLivePlayStates dec plays summary (lp_key (plays ! i)) = Some st \<and>
              (awayScore st, homeScore st) = runningScore dec plays summary i"
proof -
  from score_fold_walk[where j = 0 and dec = dec and va = "sm_visitorScore summary"
         and vh = "sm_homeScore summary" and ?m0.0 = "initialStates plays summary",
         OF assms(1) initialStates_dom]
  obtain m where
    run: "fold (scoreStep dec plays) (rev [0 ..< length plays])
            (sm_visitorScore summary, sm_homeScore summary, initialStates plays summary) =
          (fst (fold (undoPlay dec) (rev plays) (sm_visitorScore summary, sm_homeScore summary)),
           snd (fold (undoPlay dec) (rev plays) (sm_visitorScore summary, sm_homeScore summary)), m)"
    and dm: "dom m = lp_key ` set plays"
    and states: "\<forall>i. i < length plays \<longrightarrow>
                (\<exists>st. m (lp_key (plays ! i)) = Some st \<and>
                   (awayScore st, homeScore st) =
                     fold (undoPlay dec) (rev (drop (Suc i) plays))
                       (sm_visitorScore summary, sm_homeScore summary))"
    by (auto simp: initialStates_dom)
  have fin: "deriveLivePlayStates dec plays summary =
               fold (outsStep dec plays) [0 ..< length plays] m"
    by (simp add: deriveLivePlayStates_def Let_def run)
  from states assms(2) obtain st0 where
    st0: "m (lp_key (plays ! i)) = Some st0"
      "(awayScore st0, homeScore st0) = runningScore dec plays summary i"
    by (auto simp: runningScore_def)
  have "lp_key (plays ! i) \<in> dom (deriveLivePlayStates dec plays summary)"
    unfolding fin outs_fold_dom using st0 by blast
  then obtain st where
    st: "deriveLivePlayStates dec plays summary (lp_key (plays ! i)) = Some st"
    by blast
  from outs_fold_scores[OF st[unfolded fin]] st0 st show ?thesis by auto
qed

text \<open>
  Claim C3, as amended. For a play list with pairwise distinct keys, the score recorded
  for each play is the running score of the last-to-first walk at that play
  (\<open>runningScore\<close>): the walk starts from the summary's score and, after recording a
  play, takes from the total of the batting side the largest of the three run estimates
  (\<open>runsLargestOf\<close>), never going below zero and leaving an unknown total alone
  (\<open>undoPlay\<close>). The code's run estimate is that largest estimate, and 0 for a
  substitution, which therefore never changes the running score.
\<close>

theorem backward_score_walk:
  assumes "distinct (map lp_key plays)" and "i < length plays"
  shows "(\<exists>st. deriveLivePlayStates dec plays summary (lp_key (plays ! i)) = Some st \<and>
               (awayScore st, homeScore st) = runningScore dec plays summary i) \<and>
         (\<forall>play. estimateRunsScoredOnPlay dec play =
                   (if lp_isSubstitution play then 0 else runsLargestOf dec play)) \<and>
         (\<forall>play sc. lp_isSubstitution play \<longrightarrow> undoPlay dec play sc = sc)"
  using recorded_score_is_running_score[OF assms] estimateRuns_largest
  by (auto simp: undoPlay_def)

theorem backward_score_walk_witness:
  "distinct (map lp_key homer_plays) \<and> 0 < length homer_plays \<and>
   lp_key (homer_plays ! 0) = ''a'' \<and>
   deriveLivePlayStates no_entities homer_plays example_summary ''a'' =
     Some \<lparr>awayScore = Some 6, homeScore = Some 10, outsAfterPlay = Some 0\<rparr> \<and>
   runningScore no_entities homer_plays example_summary 0 = (Some 6, Some 10)"
proof -
  have d: "distinct (map lp_key homer_plays)"
    by (simp add: homer_plays_def example_play_def)
  have n: "0 < length homer_plays" by (simp add: homer_plays_def)
  have k: "lp_key (homer_plays ! 0) = ''a''" by (simp add: homer_plays_def example_play_def)
  have run: "deriveLivePlayStates no_entities homer_plays example_summary ''a'' =
     Some \<lparr>awayScore = Some 6, homeScore = Some 10, outsAfterPlay = Some 0\<rparr>"
    by code_simp
  from backward_score_walk[OF d n, of no_entities example_summary] d n k run
  show ?thesis by auto
qed

text \<open>
  The claim as stated fails where the subtraction would go below zero: with a summary
  score of 0 and a home run (one run) by the visitors as the last play, the score
  recorded for the play before it is 0, not 0 - 1.
\<close>

theorem backward_score_walk_counterexample:
  "sm_visitorScore scoreless_summary = Some 0 \<and>
   lp_half (homer_plays ! 1) = Some Top \<and>
   estimateRunsScoredOnPlay no_entities (homer_plays ! 1) = 1 \<and>
   deriveLivePlayStates no_entities homer_plays scoreless_summary (lp_key (homer_plays ! 0)) =
     Some \<lparr>awayScore = Some 0, homeScore = Some 0, outsAfterPlay = Some 0\<rparr> \<and>
   Some (0::int) \<noteq> Some (0 - int (estimateRunsScoredOnPlay no_entities (homer_plays ! 1)))"
  by code_simp

section \<open>The forward outs pass\<close>

lemma empty_text_tests:
  "\<not> rx_test (word_rxi ''triple play'') []" "\<not> rx_test (word_rxi ''double play'') []"
  "rx_count (word_rxi ''out at'') [] = 0" "rx_count (word_rxi ''out on the play'') [] = 0"
  "\<not> rx_test out_keywords []"
  by code_simp+

lemma estimateOuts_in_words: "estimateOutsRecordedOnPlay dec t = outsOnPlayInWords dec t"
  by (simp add: estimateOutsRecordedOnPlay_def outsOnPlayInWords_def Let_def empty_text_tests)

lemma outsStep_result:
  assumes "m (lp_key (plays ! j)) = Some st"
  shows "outsStep dec plays j m =
           m(lp_key (plays ! j) \<mapsto> st\<lparr>outsAfterPlay := outsAfterInWords dec plays j\<rparr>)"
  using assms
  by (cases "lp_outs (plays ! j)")
     (auto simp: outsStep_def outsAfterInWords_def Let_def estimateOuts_in_words)

lemma outs_fold_forward:
  assumes dist: "distinct (map lp_key plays)"
    and dom1: "dom m1 = lp_key ` set plays"
    and j: "j \<le> length plays"
  shows "\<forall>i. i < j \<longrightarrow>
           (\<exists>st. fold (outsStep dec plays) [0 ..< j] m1 (lp_key (plays ! i)) = Some st \<and>
                 outsAfterPlay st = outsAfterInWords dec plays i)"
  using j
proof (induction j)
  case 0
  show ?case by simp
next
  case (Suc j)
  define m where "m = fold (outsStep dec plays) [0 ..< j] m1"
  have jn: "j < length plays" using Suc.prems by simp
  have "dom m = lp_key ` set plays" by (simp add: m_def outs_fold_dom dom1)
  then have "lp_key (plays ! j) \<in> dom m" using jn by auto
  then obtain st where st: "m (lp_key (plays ! j)) = Some st" by blast
  have step: "fold (outsStep dec plays) [0 ..< Suc j] m1 =
                m(lp_key (plays ! j) \<mapsto> st\<lparr>outsAfterPlay := outsAfterInWords dec plays j\<rparr>)"
    using outsStep_result[where m = m and plays = plays and j = j and st = st and dec = dec,
            OF st]
    by (simp add: m_def)
  show ?case
  proof (intro allI impI)
    fix i assume i: "i < Suc j"
    show "\<exists>st. fold (outsStep dec plays) [0 ..< Suc j] m1 (lp_key (plays ! i)) = Some st \<and>
                 outsAfterPlay st = outsAfterInWords dec plays i"
    proof (cases "i = j")
      case True
      then show ?thesis unfolding step by simp
    next
      case False
      with i have lt: "i < j" by simp
      have "lp_key (plays ! i) \<noteq> lp_key (plays ! j)"
        using dist False lt jn by (simp add: distinct_conv_nth)
      moreover from Suc.IH lt jn have
        "\<exists>st. m (lp_key (plays ! i)) = Some st \<and>
              outsAfterPlay st = outsAfterInWords dec plays i"
        by (simp add: m_def)
      ultimately show ?thesis unfolding step by simp
    qed
  qed
qed

text \<open>
  Claim C4, as amended. For a play list with pairwise distinct keys, the
  \<open>outsAfterPlay\<close> of every play is: the next play's outs clamped to the range from 0
  to 3, when the next play is in the same half-inning and carries outs; 3 when the next
  play is not in the same half-inning; otherwise the play's own outs plus the
  text-based estimate, clamped to the range from 0 to 3, and null when the play carries
  no outs. The estimate is 3 for a triple play, 2 for a double play, else the number of
  \<open>out at\<close> and \<open>out on the play\<close> mentions, else 1 when an out keyword appears,
  else 0.
\<close>

theorem forward_outs_pass:
  assumes "distinct (map lp_key plays)" and "i < length plays"
  shows "(\<exists>st. deriveLivePlayStates dec plays summary (lp_key (plays ! i)) = Some st \<and>
               outsAfterPlay st = outsAfterInWords dec plays i) \<and>
         (\<forall>t. estimateOutsRecordedOnPlay dec t = outsOnPlayInWords dec t)"
proof -
  define m1 where
    "m1 = snd (snd (fold (scoreStep dec plays) (rev [0 ..< length plays])
            (sm_visitorScore summary, sm_homeScore summary, initialStates plays summary)))"
  have dom1: "dom m1 = lp_key ` set plays"
    by (simp add: m1_def score_fold_dom initialStates_dom)
  have fin: "deriveLivePlayStates dec plays summary =
               fold (outsStep dec plays) [0 ..< length plays] m1"
    by (simp add: deriveLivePlayStates_def Let_def m1_def)
  from outs_fold_forward[OF assms(1) dom1 order_refl, of dec] assms(2)
  show ?thesis
    unfolding fin using estimateOuts_in_words by blast
qed

theorem forward_outs_pass_witness:
  "distinct (map lp_key example_plays) \<and> 2 < length example_plays \<and>
   lp_key (example_plays ! 2) = ''k3'' \<and>
   deriveLivePlayStates no_entities example_plays example_summary ''k3'' =
     Some \<lparr>awayScore = Some 7, homeScore = Some 10, outsAfterPlay = Some 3\<rparr> \<and>
   outsAfterInWords no_entities example_plays 2 = Some 3"
proof -
  have d: "distinct (map lp_key example_plays)"
    by (simp add: example_plays_def example_play_def)
  have n: "2 < length example_plays" by (simp add: example_plays_def)
  have k: "lp_key (example_plays ! 2) = ''k3''"
    by (simp add: example_plays_def example_play_def)
  have run: "deriveLivePlayStates no_entities example_plays example_summary ''k3'' =
     Some \<lparr>awayScore = Some 7, homeScore = Some 10, outsAfterPlay = Some 3\<rparr>"
    by code_simp
  from forward_outs_pass[OF d n, of no_entities example_summary] d n k run
  show ?thesis by auto
qed

text \<open>
  The claim as stated fails where the next play's outs are outside the range from 0 to
  3: the code clamps them.
\<close>

theorem forward_outs_pass_counterexample:
  "isSameHalfInning (five_outs_plays ! 0) (five_outs_plays ! 1) \<and>
   lp_outs (five_outs_plays ! 1) = Some 5 \<and>
   deriveLivePlayStates no_entities five_outs_plays example_summary
       (lp_key (five_outs_plays ! 0)) =
     Some \<lparr>awayScore = Some 7, homeScore = Some 10, outsAfterPlay = Some 3\<rparr>"
  by code_simp


section \<open>Facts about tokens and normalised texts\<close>

lemma tokens_follow: "cs \<noteq> [] \<Longrightarrow> \<not> sep (hd cs) \<Longrightarrow> tokens sep cs \<noteq> []"
  by (cases cs) (auto split: list.splits)

lemma tokens_step:
  "tokens sep (c # cs) =
     (if sep c then tokens sep cs
      else if cs = [] \<or> sep (hd cs) then [c] # tokens sep cs
      else (c # hd (tokens sep cs)) # tl (tokens sep cs))"
  using tokens_follow[of cs sep] by (auto split: list.splits)

declare tokens.simps(2) [simp del]

declare tokens_step [simp]

lemma tokens_start:
  "s \<noteq> [] \<Longrightarrow> \<not> sep (hd s) \<Longrightarrow> tokens sep s \<noteq> [] \<and> hd (hd (tokens sep s)) = hd s"
  by (cases s) auto

lemma tokens_members:
  "w \<in> set (tokens sep s) \<Longrightarrow> w \<noteq> [] \<and> (\<forall>c \<in> set w. \<not> sep c)"
proof (induction s arbitrary: w)
  case Nil
  then show ?case by simp
next
  case (Cons c cs)
  show ?case
  proof (cases "sep c")
    case True
    with Cons show ?thesis by simp
  next
    case False
    show ?thesis
    proof (cases "cs = [] \<or> sep (hd cs)")
      case True
      with False Cons show ?thesis by auto
    next
      case next_joins: False
      then have ne: "tokens sep cs \<noteq> []" using tokens_start[of cs sep] by simp
      then have split: "tokens sep cs = hd (tokens sep cs) # tl (tokens sep cs)" by simp
      from Cons.prems False next_joins
      have "w = c # hd (tokens sep cs) \<or> w \<in> set (tl (tokens sep cs))" by simp
      then show ?thesis
      proof
        assume w: "w = c # hd (tokens sep cs)"
        have "hd (tokens sep cs) \<in> set (tokens sep cs)" using ne by simp
        from Cons.IH[OF this] show ?thesis using w False by simp
      next
        assume "w \<in> set (tl (tokens sep cs))"
        then have "w \<in> set (tokens sep cs)" using ne by (metis list.set_sel(2))
        from Cons.IH[OF this] show ?thesis .
      qed
    qed
  qed
qed

lemma tokens_all_separators: "(\<forall>c \<in> set s. sep c) \<Longrightarrow> tokens sep s = []"
  by (induction s) simp_all

lemma tokens_drop_leading: "tokens sep (dropWhile sep s) = tokens sep s"
  by (induction s) simp_all

lemma tokens_append_separators:
  "(\<forall>c \<in> set post. sep c) \<Longrightarrow> tokens sep (s @ post) = tokens sep s"
proof (induction s)
  case Nil
  then show ?case by (simp add: tokens_all_separators)
next
  case (Cons c cs)
  then have IH: "tokens sep (cs @ post) = tokens sep cs" by simp
  have hd_post: "cs = [] \<Longrightarrow> post \<noteq> [] \<Longrightarrow> sep (hd post)"
    using Cons.prems by (cases post) simp_all
  show ?case
  proof (cases "cs = []")
    case True
    with Cons.prems hd_post show ?thesis
      by (cases post) (simp_all add: tokens_all_separators)
  next
    case False
    then have "hd (cs @ post) = hd cs" by simp
    with False IH show ?thesis by simp
  qed
qed

lemma tokens_trim: "tokens is_space (trim s) = tokens is_space s"
proof -
  define x where "x = trimStart s"
  have "x = rev (dropWhile is_space (rev x)) @ rev (takeWhile is_space (rev x))"
    by (metis rev_append rev_rev_ident takeWhile_dropWhile_id)
  moreover have "\<forall>c \<in> set (rev (takeWhile is_space (rev x))). is_space c"
    by (auto dest: set_takeWhileD)
  ultimately have "tokens is_space x = tokens is_space (rev (dropWhile is_space (rev x)))"
    using tokens_append_separators[of "rev (takeWhile is_space (rev x))" is_space
            "rev (dropWhile is_space (rev x))"]
    by simp
  then show ?thesis
    by (simp add: trim_def trimEnd_def x_def trimStart_def tokens_drop_leading)
qed


lemma join_single_Cons: "join sep ([c] # w # ws) = c # sep @ join sep (w # ws)"
  by simp











lemma find_as_filter: "find P xs = (case filter P xs of [] \<Rightarrow> None | x # others \<Rightarrow> Some x)"
  by (induction xs) simp_all

section \<open>The play description parser\<close>

lemma firstMatch_first:
  "(\<forall>(o', p', g') \<in> set pre. \<not> rx_test p' lower) \<Longrightarrow> rx_test pattern lower \<Longrightarrow>
   firstMatch (pre @ (outcome, pattern, tag) # post) lower tags = (outcome, addTag tag tags)"
  by (induction pre) auto

lemma firstMatch_none:
  "(\<forall>(o', p', g') \<in> set ms. \<not> rx_test p' lower) \<Longrightarrow> firstMatch ms lower tags = (Other, tags)"
  by (induction ms) auto

lemma firstMatch_keeps_tags: "set tags \<subseteq> set (snd (firstMatch ms lower tags))"
  by (induction ms) (auto simp: addTag_def)

lemma detectTags_set:
  "set (detectTags lower) =
     {g. (g = ''double_play'' \<and> rx_test (word_rx ''double play'') lower) \<or>
         (g = ''triple_play'' \<and> rx_test (word_rx ''triple play'') lower) \<or>
         (g = ''run_scored'' \<and> rx_test (Alt (word_rx ''scored'') (word_rx ''scores'')) lower) \<or>
         (g = ''rbi'' \<and> rx_test (word_rx ''rbi'') lower)}"
  by (auto simp: detectTags_def addTag_def Let_def)

text \<open>
  Claim C6. \<open>parsePlayDescription\<close> tries its matchers in the fixed order of
  \<open>orderedMatchers\<close> (home run before triple before double before single, and so on)
  and returns the outcome of the first that matches, with its tag added to the tags
  detected on their own (\<open>double_play\<close>, \<open>triple_play\<close>, \<open>run_scored\<close>,
  \<open>rbi\<close>); when none matches the outcome is \<open>other\<close> with the detected tags.
  The detected tags depend on their four patterns only and are always part of the
  result. The home-run example of the specification evaluates as stated.
\<close>

theorem parsePlayDescription_first_match:
  "(\<forall>pre outcome pattern tag post.
      orderedMatchers = pre @ (outcome, pattern, tag) # post \<and>
      rx_test pattern (toLowerCase t) \<and>
      (\<forall>(o', p', g') \<in> set pre. \<not> rx_test p' (toLowerCase t)) \<longrightarrow>
      parsePlayDescription t = (outcome, addTag tag (detectTags (toLowerCase t)))) \<and>
   ((\<forall>(o', p', g') \<in> set orderedMatchers. \<not> rx_test p' (toLowerCase t)) \<longrightarrow>
      parsePlayDescription t = (Other, detectTags (toLowerCase t))) \<and>
   map fst orderedMatchers =
     [HomeRun, Triple, Double, Single, IntentionalWalk, Walk, HitByPitch, CaughtStealing,
      Pickoff, StolenBase, Strikeout, GroundOut, FlyOut, LineOut, FoulOut, Sacrifice,
      FielderChoice, ReachedOnError, WildPitch, PassedBall, Balk] \<and>
   set (detectTags (toLowerCase t)) =
     {g. (g = ''double_play'' \<and> rx_test (word_rx ''double play'') (toLowerCase t)) \<or>
         (g = ''triple_play'' \<and> rx_test (word_rx ''triple play'') (toLowerCase t)) \<or>
         (g = ''run_scored'' \<and>
            rx_test (Alt (word_rx ''scored'') (word_rx ''scores'')) (toLowerCase t)) \<or>
         (g = ''rbi'' \<and> rx_test (word_rx ''rbi'') (toLowerCase t))} \<and>
   set (detectTags (toLowerCase t)) \<subseteq> set (snd (parsePlayDescription t)) \<and>
   parsePlayDescription ''Barrett,Drey homered to left field, RBI (2-1 BKB).'' =
     (HomeRun, [''rbi'', ''home_run''])"
proof -
  have first: "\<forall>pre outcome pattern tag post.
      orderedMatchers = pre @ (outcome, pattern, tag) # post \<and>
      rx_test pattern (toLowerCase t) \<and>
      (\<forall>(o', p', g') \<in> set pre. \<not> rx_test p' (toLowerCase t)) \<longrightarrow>
      parsePlayDescription t = (outcome, addTag tag (detectTags (toLowerCase t)))"
  proof (intro allI impI)
    fix pre outcome pattern tag post
    assume a: "orderedMatchers = pre @ (outcome, pattern, tag) # post \<and>
      rx_test pattern (toLowerCase t) \<and>
      (\<forall>(o', p', g') \<in> set pre. \<not> rx_test p' (toLowerCase t))"
    then have "firstMatch (pre @ (outcome, pattern, tag) # post) (toLowerCase t)
                 (detectTags (toLowerCase t)) =
               (outcome, addTag tag (detectTags (toLowerCase t)))"
      by (intro firstMatch_first) simp_all
    with a show "parsePlayDescription t = (outcome, addTag tag (detectTags (toLowerCase t)))"
      by (simp add: parsePlayDescription_def Let_def)
  qed
  have none: "(\<forall>(o', p', g') \<in> set orderedMatchers. \<not> rx_test p' (toLowerCase t)) \<longrightarrow>
      parsePlayDescription t = (Other, detectTags (toLowerCase t))"
    by (auto simp: parsePlayDescription_def Let_def firstMatch_none)
  have order: "map fst orderedMatchers =
     [HomeRun, Triple, Double, Single, IntentionalWalk, Walk, HitByPitch, CaughtStealing,
      Pickoff, StolenBase, Strikeout, GroundOut, FlyOut, LineOut, FoulOut, Sacrifice,
      FielderChoice, ReachedOnError, WildPitch, PassedBall, Balk]"
    by (simp add: orderedMatchers_def)
  have keep: "set (detectTags (toLowerCase t)) \<subseteq> set (snd (parsePlayDescription t))"
    by (simp add: parsePlayDescription_def Let_def firstMatch_keeps_tags)
  have ex: "parsePlayDescription ''Barrett,Drey homered to left field, RBI (2-1 BKB).'' =
     (HomeRun, [''rbi'', ''home_run''])"
    by code_simp
  show ?thesis
    by (intro conjI first none order detectTags_set keep ex)
qed

theorem parsePlayDescription_first_match_witness:
  "orderedMatchers = [] @ (HomeRun, Alt (word_rx ''homered'') (word_rx ''home run''), ''home_run'')
      # tl orderedMatchers \<and>
   rx_test (Alt (word_rx ''homered'') (word_rx ''home run''))
     (toLowerCase ''Roe,Max homered to left field.'') \<and>
   parsePlayDescription ''Roe,Max homered to left field.'' =
     (HomeRun, addTag ''home_run'' (detectTags (toLowerCase ''Roe,Max homered to left field.'')))"
proof -
  have m: "orderedMatchers =
             [] @ (HomeRun, Alt (word_rx ''homered'') (word_rx ''home run''), ''home_run'')
                # tl orderedMatchers"
    by (simp add: orderedMatchers_def)
  have r: "rx_test (Alt (word_rx ''homered'') (word_rx ''home run''))
             (toLowerCase ''Roe,Max homered to left field.'')"
    by code_simp
  from parsePlayDescription_first_match[of "''Roe,Max homered to left field.''",
         THEN conjunct1, rule_format,
         of "[]" HomeRun "Alt (word_rx ''homered'') (word_rx ''home run'')"
            "''home_run''" "tl orderedMatchers"] m r
  show ?thesis by simp
qed

section \<open>Scoring decisions and field locations\<close>

lemma class_runs_reach_end:
  "(\<exists>q. (q, []) \<in> set (class_runs p prev s)) = list_all p s"
  by (induction s arbitrary: prev) auto

lemma ends_at_Eol:
  "(concat (map (rx_run Eol) (map (\<lambda>(q, r). (q, r, cs)) xs)) \<noteq> []) = (\<exists>q. (q, []) \<in> set xs)"
  by (induction xs) auto

lemma all_digits_test: "rx_test all_digits s = (s \<noteq> [] \<and> list_all is_digit s)"
proof -
  have "rx_test all_digits s = (\<exists>q. (q, []) \<in> set (rev (tl (class_runs is_digit None s))))"
    unfolding all_digits_def seqs.simps rx_test_Bol rx_run.simps ends_at_Eol ..
  also have "\<dots> = (s \<noteq> [] \<and> list_all is_digit s)"
    using class_runs_reach_end[of is_digit] by (cases s) auto
  finally show ?thesis .
qed

lemma tokens_no_separators:
  "s \<noteq> [] \<Longrightarrow> \<forall>c \<in> set s. \<not> sep c \<Longrightarrow> tokens sep s = [s]"
proof (induction s)
  case Nil
  then show ?case by simp
next
  case (Cons c cs)
  show ?case
  proof (cases "cs = []")
    case True
    with Cons.prems show ?thesis by simp
  next
    case False
    with Cons have "tokens sep cs = [cs]" by simp
    moreover have "\<not> sep (hd cs)" using False Cons.prems by (cases cs) simp_all
    ultimately show ?thesis using False Cons.prems by simp
  qed
qed

lemma tokens_then_separator:
  "\<forall>a \<in> set cur. \<not> sep a \<Longrightarrow> sep c \<Longrightarrow>
   tokens sep (cur @ c # cs) = (if cur = [] then [] else [cur]) @ tokens sep cs"
proof (induction cur)
  case Nil
  then show ?case by simp
next
  case (Cons a as)
  then have IH: "tokens sep (as @ c # cs) = (if as = [] then [] else [as]) @ tokens sep cs"
    by simp
  from Cons.prems have a: "\<not> sep a" by simp
  show ?case
  proof (cases "as = []")
    case True
    with a Cons.prems(2) show ?thesis by simp
  next
    case False
    then have "hd (as @ c # cs) = hd as" by simp
    moreover have "\<not> sep (hd as)" using False Cons.prems(1) by (cases as) simp_all
    ultimately show ?thesis using a False IH by simp
  qed
qed

lemma split_spaces_tokens:
  "(b \<longrightarrow> cur = []) \<Longrightarrow> \<forall>c \<in> set cur. \<not> is_space c \<Longrightarrow>
   filter (\<lambda>part. length part > 0) (split_spaces b cur s) = tokens is_space (cur @ s)"
proof (induction s arbitrary: b cur)
  case Nil
  then show ?case by (cases "cur = []") (simp_all add: tokens_no_separators)
next
  case (Cons c cs)
  show ?case
  proof (cases "is_space c")
    case False
    have "filter (\<lambda>part. length part > 0) (split_spaces False (cur @ [c]) cs) =
          tokens is_space ((cur @ [c]) @ cs)"
      by (rule Cons.IH) (use Cons.prems False in auto)
    with False show ?thesis by simp
  next
    case True
    have rest: "filter (\<lambda>part. length part > 0) (split_spaces True [] cs) = tokens is_space cs"
      using Cons.IH[of True "[]"] by simp
    show ?thesis
    proof (cases b)
      case True
      with Cons.prems have "cur = []" by simp
      with True \<open>is_space c\<close> rest show ?thesis by simp
    next
      case False
      with \<open>is_space c\<close> rest tokens_then_separator[of cur is_space c cs] Cons.prems(2)
      show ?thesis by simp
    qed
  qed
qed

lemma tokens_map:
  "(\<And>c. sep (f c) = sep c) \<Longrightarrow> tokens sep (map f s) = map (map f) (tokens sep s)"
proof (induction s)
  case Nil
  then show ?case by simp
next
  case (Cons c cs)
  then have IH: "tokens sep (map f cs) = map (map f) (tokens sep cs)" by simp
  show ?case
  proof (cases "cs = [] \<or> sep (hd cs)")
    case True
    with Cons.prems IH show ?thesis by (cases cs) auto
  next
    case False
    then have "tokens sep cs \<noteq> []" using tokens_start[of cs sep] by simp
    with False Cons.prems IH show ?thesis
      by (cases cs) (auto simp: hd_map map_tl)
  qed
qed

lemma upper_char_space: "is_space (upper_char c) = is_space c"
  by (cases c) (auto simp: upper_char_bits is_space_bits is_lower_bits)

lemma upper_char_digit: "is_digit (upper_char c) = is_digit c"
  by (cases c) (auto simp: upper_char_bits is_digit_bits is_lower_bits)

lemma upper_char_of_digit: "is_digit c \<Longrightarrow> upper_char c = c"
  by (cases c) (auto simp: upper_char_bits is_digit_bits is_lower_bits)

lemma valid_digit: "is_digit d \<Longrightarrow> (1 \<le> int (digit_val d) \<and> int (digit_val d) \<le> 9) = (d \<noteq> CHR ''0'')"
  by (cases d) (auto simp: is_digit_bits digit_val_def)


lemma digit_tokens_upper:
  "\<forall>w \<in> set toks. w \<noteq> [] \<Longrightarrow>
   filter (\<lambda>part. rx_test all_digits part) (map (map upper_char) toks) =
   filter (list_all is_digit) toks"
proof (induction toks)
  case Nil
  then show ?case by simp
next
  case (Cons w ws)
  then have IH: "filter (\<lambda>part. rx_test all_digits part) (map (map upper_char) ws) =
                 filter (list_all is_digit) ws" by simp
  have t: "rx_test all_digits (map upper_char w) = list_all is_digit w"
    using Cons.prems by (simp add: all_digits_test list_all_iff upper_char_digit)
  have "list_all is_digit w \<Longrightarrow> map upper_char w = w"
    by (simp add: list_all_iff map_idI upper_char_of_digit)
  with t IH show ?case by simp
qed

lemma shorthand_parts:
  "filter (\<lambda>part. length part > 0) (split_spaces False [] (toUpperCase (trim raw))) =
   map (map upper_char) (tokens is_space raw)"
proof -
  have "filter (\<lambda>part. length part > 0) (split_spaces False [] (toUpperCase (trim raw))) =
        tokens is_space (map upper_char (trim raw))"
    using split_spaces_tokens[of False "[]" "toUpperCase (trim raw)"] by (simp add: toUpperCase_def)
  also have "\<dots> = map (map upper_char) (tokens is_space (trim raw))"
    by (rule tokens_map) (rule upper_char_space)
  finally show ?thesis by (simp add: tokens_trim)
qed

lemma codes_of_token:
  "list_all is_digit token \<Longrightarrow>
   filter (\<lambda>c. 1 \<le> c \<and> c \<le> 9) (map (\<lambda>digit. int (parse_digits [digit])) token) =
   map (\<lambda>d. int (digit_val d)) (filter (\<lambda>d. d \<noteq> CHR ''0'') token)"
proof (induction token)
  case Nil
  then show ?case by simp
next
  case (Cons d ds)
  then have "is_digit d" by simp
  from valid_digit[OF this] Cons show ?case by (simp add: parse_digits_def)
qed

lemma parse_codes:
  assumes "parseScoringDecisionContext sd = Some b"
  shows "dc_fielderCodes b = shorthandCodes sd"
proof -
  from assms obtain raw where raw: "sd = Some raw" "toStringValue sd = Some (trim raw)"
    by (cases sd) (auto simp: parseScoringDecisionContext_def toStringValue_def Let_def
                        split: if_splits)
  define toks where "toks = tokens is_space raw"
  have ne: "\<forall>w \<in> set toks. w \<noteq> []"
    using tokens_members[of _ is_space raw] by (auto simp: toks_def)
  have parts: "filter (\<lambda>part. length part > 0) (split_spaces False [] (toUpperCase (trim raw))) =
               map (map upper_char) toks"
    unfolding toks_def by (rule shorthand_parts)
  have token: "find (\<lambda>part. rx_test all_digits part) (map (map upper_char) toks) =
               (case filter (list_all is_digit) toks of [] \<Rightarrow> None | w # others \<Rightarrow> Some w)"
    unfolding find_as_filter digit_tokens_upper[OF ne] ..
  have spec: "shorthandCodes sd =
              (case filter (list_all is_digit) toks of
                 [] \<Rightarrow> []
               | w # others \<Rightarrow> map (\<lambda>d. int (digit_val d)) (filter (\<lambda>d. d \<noteq> CHR ''0'') w))"
    by (simp add: shorthandCodes_def raw(1) toks_def)
  show ?thesis
  proof (cases "filter (list_all is_digit) toks")
    case Nil
    with assms raw(2) parts token spec show ?thesis
      by (auto simp: parseScoringDecisionContext_def Let_def split: list.splits)
  next
    case (Cons w others)
    then have "w \<in> set (filter (list_all is_digit) toks)" by simp
    then have w: "list_all is_digit w" by simp
    from assms raw(2) parts token spec Cons codes_of_token[OF w] show ?thesis
      by (auto simp: parseScoringDecisionContext_def Let_def split: list.splits)
  qed
qed

lemma toStringValue_blank: "(toStringValue sd = None) = blankShorthand sd"
  by (cases sd) (auto simp: toStringValue_def blankShorthand_def Let_def)

lemma blank_no_codes: "blankShorthand sd \<Longrightarrow> shorthandCodes sd = []"
proof (cases sd)
  case None
  then show ?thesis by (simp add: shorthandCodes_def)
next
  case (Some raw)
  assume "blankShorthand sd"
  with Some have "trim raw = [] \<or> trim raw = ''-''" by (simp add: blankShorthand_def)
  then have "tokens is_space (trim raw) = [] \<or> tokens is_space (trim raw) = [''-'']"
    by (auto simp: is_space_def)
  then have "filter (list_all is_digit) (tokens is_space raw) = []"
    by (auto simp: tokens_trim is_digit_def)
  with Some show ?thesis by (simp add: shorthandCodes_def)
qed

lemma shorthandCodes_range: "c \<in> set (shorthandCodes sd) \<Longrightarrow> 1 \<le> c \<and> c \<le> 9"
proof (cases sd)
  case None
  assume "c \<in> set (shorthandCodes sd)"
  with None show ?thesis by (simp add: shorthandCodes_def)
next
  case (Some raw)
  assume c: "c \<in> set (shorthandCodes sd)"
  show ?thesis
  proof (cases "filter (list_all is_digit) (tokens is_space raw)")
    case Nil
    with Some c show ?thesis by (simp add: shorthandCodes_def)
  next
    case (Cons w others)
    then have "w \<in> set (filter (list_all is_digit) (tokens is_space raw))" by simp
    then have w: "list_all is_digit w" by simp
    from Some c Cons obtain d where d: "d \<in> set w" "d \<noteq> CHR ''0''" "c = int (digit_val d)"
      by (auto simp: shorthandCodes_def)
    from w d(1) have "is_digit d" by (simp add: list_all_iff)
    from valid_digit[OF this] d show ?thesis by simp
  qed
qed

lemma split_spaces_nonempty:
  "cur \<noteq> [] \<or> (\<exists>c \<in> set s. \<not> is_space c) \<Longrightarrow> \<exists>p \<in> set (split_spaces b cur s). p \<noteq> []"
proof (induction s arbitrary: b cur)
  case Nil
  then show ?case by simp
next
  case (Cons c cs)
  show ?case
  proof (cases "is_space c")
    case False
    have "\<exists>p \<in> set (split_spaces False (cur @ [c]) cs). p \<noteq> []"
      by (rule Cons.IH) simp
    with False show ?thesis by simp
  next
    case True
    show ?thesis
    proof (cases "cur \<noteq> []")
      case cur: True
      show ?thesis
      proof (cases b)
        case True
        have "\<exists>p \<in> set (split_spaces True cur cs). p \<noteq> []"
          by (rule Cons.IH) (simp add: cur)
        with \<open>is_space c\<close> True show ?thesis by simp
      next
        case False
        with \<open>is_space c\<close> cur show ?thesis by simp
      qed
    next
      case False
      with Cons.prems True have ex: "\<exists>c \<in> set cs. \<not> is_space c" by auto
      have "\<And>b' cur'. \<exists>p \<in> set (split_spaces b' cur' cs). p \<noteq> []"
        using Cons.IH ex by blast
      with True show ?thesis by (cases b) auto
    qed
  qed
qed

lemma upper_char_not_space: "\<not> is_space c \<Longrightarrow> \<not> is_space (upper_char c)"
  by (cases c) (auto simp: upper_char_bits is_space_bits is_lower_bits)

lemma trim_nonempty_has_text: "trim raw \<noteq> [] \<Longrightarrow> \<exists>c \<in> set (trim raw). \<not> is_space c"
proof -
  assume ne: "trim raw \<noteq> []"
  define x where "x = rev (trimStart raw)"
  have t: "trim raw = rev (dropWhile is_space x)"
    by (simp add: trim_def trimEnd_def x_def)
  with ne have d: "dropWhile is_space x \<noteq> []" by simp
  then have "\<not> is_space (hd (dropWhile is_space x))" by (rule hd_dropWhile)
  moreover have "hd (dropWhile is_space x) \<in> set (trim raw)" using d by (simp add: t)
  ultimately show ?thesis by blast
qed

lemma parseScoringDecisionContext_None:
  "(parseScoringDecisionContext sd = None) = (toStringValue sd = None)"
proof (cases "toStringValue sd")
  case None
  then show ?thesis by (simp add: parseScoringDecisionContext_def)
next
  case (Some clean)
  then obtain raw where raw: "sd = Some raw" "clean = trim raw" "trim raw \<noteq> []"
    by (auto simp: toStringValue_def Let_def split: option.splits if_splits)
  from trim_nonempty_has_text[OF raw(3)] have "\<exists>c \<in> set (toUpperCase clean). \<not> is_space c"
    using upper_char_not_space by (auto simp: toUpperCase_def raw(2))
  then have "\<exists>p \<in> set (split_spaces False [] (toUpperCase clean)). p \<noteq> []"
    using split_spaces_nonempty by blast
  then have "filter (\<lambda>part. length part > 0) (split_spaces False [] (toUpperCase clean)) \<noteq> []"
    by (auto simp: filter_empty_conv)
  then show ?thesis
    using Some by (auto simp: parseScoringDecisionContext_def Let_def split: list.splits)
qed

lemma parseScoringDecisionContext_source:
  assumes "parseScoringDecisionContext sd = Some b"
  shows "(dc_fielderCodes b \<noteq> [] \<longrightarrow>
            dc_locationSource b = Scorecard \<and> dc_locationConfidence b = 9 / 10 \<and>
            dc_fieldLocations b = map mapFielderCodeToLocation (dc_fielderCodes b) \<and>
            (\<forall>c \<in> set (dc_fielderCodes b). 1 \<le> c \<and> c \<le> 9)) \<and>
         (dc_fielderCodes b = [] \<longrightarrow>
            dc_locationSource b = NoLocation \<and> dc_locationConfidence b = 0 \<and>
            dc_fieldLocations b = [])"
  using assms
  by (auto simp: parseScoringDecisionContext_def Let_def split: option.splits list.splits)



lemma text_yields_location:
  "(parseFieldLocationsFromText t = []) =
   (\<forall>(pattern, c) \<in> set locationPatterns. \<not> rx_test pattern (toLowerCase t))"
proof -
  have "(locationMatches lower = []) =
        (\<forall>(pattern, c) \<in> set locationPatterns. \<not> rx_test pattern lower)" for lower
    unfolding locationMatches_def rx_test_def
    by (auto simp: concat_eq_Nil_conv split: option.splits)
  then show ?thesis
    by (simp add: parseFieldLocationsFromText_def Let_def)
qed

lemma earliest_mention:
  assumes "parseFieldLocationsFromText t \<noteq> []"
  shows "\<exists>i c. (i, c) \<in> set (locationMatches (toLowerCase t)) \<and>
               (\<forall>(j, d) \<in> set (locationMatches (toLowerCase t)). i \<le> j) \<and>
               parseFieldLocationsFromText t = [mapFielderCodeToLocation c]"
proof -
  define ms where "ms = locationMatches (toLowerCase t)"
  define sorted_ms where "sorted_ms = sort_key fst ms"
  from assms have ne: "ms \<noteq> []"
    by (auto simp: parseFieldLocationsFromText_def Let_def ms_def)
  then have sne: "sorted_ms \<noteq> []"
    unfolding sorted_ms_def by (metis length_0_conv length_sort)
  then obtain x xs where x: "sorted_ms = x # xs" by (cases sorted_ms) auto
  have "sorted (map fst sorted_ms)" unfolding sorted_ms_def by (rule sorted_sort_key)
  with x have least: "\<forall>y \<in> set sorted_ms. fst x \<le> fst y" by auto
  have same: "set sorted_ms = set ms" by (simp add: sorted_ms_def)
  have mem: "x \<in> set ms" using x same by auto
  have res: "parseFieldLocationsFromText t = [mapFielderCodeToLocation (snd x)]"
    using ne x by (simp add: parseFieldLocationsFromText_def Let_def ms_def[symmetric]
                        sorted_ms_def[symmetric])
  show ?thesis
    apply (rule exI[of _ "fst x"], rule exI[of _ "snd x"])
    using mem least same res unfolding ms_def by auto
qed

text \<open>
  Claim C2, as amended. The play text yields a location exactly when one of the location
  patterns matches it, and then the resolved context exists and carries the text's
  location and code, with source \<open>text\<close> and confidence 1, whatever the shorthand says;
  the location is the one whose pattern matches earliest in the text. When the text
  yields none, the result is read from the shorthand alone. Its fielder codes are the
  digits 1 to 9 of its first whitespace-separated token that is made of digits only
  (\<open>shorthandCodes\<close>). With such codes the context carries them, with source
  \<open>scorecard\<close> and confidence 0.9; without them, for a shorthand that is not blank, the
  context has no codes, source \<open>none\<close> and confidence 0; and for a shorthand that is
  null, blank or a lone hyphen there is no context at all (null). The example of the
  specification resolves to code 8.
\<close>

theorem resolveScoringDecisionContext_precedence:
  "(parseFieldLocationsFromText t \<noteq> [] \<longrightarrow>
      (\<exists>ctx. resolveScoringDecisionContext sd t = Some ctx \<and>
             dc_fieldLocations ctx = parseFieldLocationsFromText t \<and>
             dc_fielderCodes ctx = map fl_code (parseFieldLocationsFromText t) \<and>
             dc_locationSource ctx = FromText \<and> dc_locationConfidence ctx = 1)) \<and>
   (parseFieldLocationsFromText t = [] \<and> shorthandCodes sd \<noteq> [] \<longrightarrow>
      (\<exists>ctx. resolveScoringDecisionContext sd t = Some ctx \<and>
             dc_fielderCodes ctx = shorthandCodes sd \<and>
             dc_fieldLocations ctx = map mapFielderCodeToLocation (shorthandCodes sd) \<and>
             dc_locationSource ctx = Scorecard \<and> dc_locationConfidence ctx = 9 / 10)) \<and>
   (parseFieldLocationsFromText t = [] \<and> shorthandCodes sd = [] \<and> \<not> blankShorthand sd \<longrightarrow>
      (\<exists>ctx. resolveScoringDecisionContext sd t = Some ctx \<and>
             dc_fielderCodes ctx = [] \<and> dc_fieldLocations ctx = [] \<and>
             dc_locationSource ctx = NoLocation \<and> dc_locationConfidence ctx = 0)) \<and>
   (parseFieldLocationsFromText t = [] \<and> blankShorthand sd \<longrightarrow>
      resolveScoringDecisionContext sd t = None) \<and>
   (\<forall>c \<in> set (shorthandCodes sd). 1 \<le> c \<and> c \<le> 9) \<and>
   (parseFieldLocationsFromText t = [] \<longrightarrow>
      resolveScoringDecisionContext sd t = parseScoringDecisionContext sd) \<and>
   ((parseFieldLocationsFromText t = []) =
      (\<forall>(pattern, c) \<in> set locationPatterns. \<not> rx_test pattern (toLowerCase t))) \<and>
   (parseFieldLocationsFromText t \<noteq> [] \<longrightarrow>
      (\<exists>i c. (i, c) \<in> set (locationMatches (toLowerCase t)) \<and>
             (\<forall>(j, d) \<in> set (locationMatches (toLowerCase t)). i \<le> j) \<and>
             parseFieldLocationsFromText t = [mapFielderCodeToLocation c])) \<and>
   map_option dc_fielderCodes
     (resolveScoringDecisionContext (Some ''HR 9 1RBI'')
        ''Example batter homered to center field, RBI (2-1 BKS).'') = Some [8]"
proof -
  have text_wins: "parseFieldLocationsFromText t \<noteq> [] \<longrightarrow>
      (\<exists>ctx. resolveScoringDecisionContext sd t = Some ctx \<and>
             dc_fieldLocations ctx = parseFieldLocationsFromText t \<and>
             dc_fielderCodes ctx = map fl_code (parseFieldLocationsFromText t) \<and>
             dc_locationSource ctx = FromText \<and> dc_locationConfidence ctx = 1)"
    by (cases "parseScoringDecisionContext sd")
       (simp_all add: resolveScoringDecisionContext_def Let_def)
  have fallback: "parseFieldLocationsFromText t = [] \<longrightarrow>
      resolveScoringDecisionContext sd t = parseScoringDecisionContext sd"
    by (simp add: resolveScoringDecisionContext_def Let_def)
  have parsed: "\<exists>b. parseScoringDecisionContext sd = Some b" if "\<not> blankShorthand sd"
    using that parseScoringDecisionContext_None[of sd] toStringValue_blank[of sd] by auto
  have fields: "dc_fielderCodes b = shorthandCodes sd \<and>
                dc_fieldLocations b = map mapFielderCodeToLocation (shorthandCodes sd) \<and>
                dc_locationSource b = (if shorthandCodes sd \<noteq> [] then Scorecard else NoLocation) \<and>
                dc_locationConfidence b = (if shorthandCodes sd \<noteq> [] then 9 / 10 else 0)"
    if "parseScoringDecisionContext sd = Some b" for b
    using parseScoringDecisionContext_source[OF that] parse_codes[OF that] by auto
  have scorecard: "parseFieldLocationsFromText t = [] \<and> shorthandCodes sd \<noteq> [] \<longrightarrow>
      (\<exists>ctx. resolveScoringDecisionContext sd t = Some ctx \<and>
             dc_fielderCodes ctx = shorthandCodes sd \<and>
             dc_fieldLocations ctx = map mapFielderCodeToLocation (shorthandCodes sd) \<and>
             dc_locationSource ctx = Scorecard \<and> dc_locationConfidence ctx = 9 / 10)"
  proof (intro impI, elim conjE)
    assume t: "parseFieldLocationsFromText t = []" and c: "shorthandCodes sd \<noteq> []"
    from c have "\<not> blankShorthand sd" using blank_no_codes by blast
    from parsed[OF this] obtain b where b: "parseScoringDecisionContext sd = Some b" ..
    from fields[OF b] c fallback t b show "\<exists>ctx. resolveScoringDecisionContext sd t = Some ctx \<and>
             dc_fielderCodes ctx = shorthandCodes sd \<and>
             dc_fieldLocations ctx = map mapFielderCodeToLocation (shorthandCodes sd) \<and>
             dc_locationSource ctx = Scorecard \<and> dc_locationConfidence ctx = 9 / 10"
      by simp
  qed
  have none: "parseFieldLocationsFromText t = [] \<and> shorthandCodes sd = [] \<and> \<not> blankShorthand sd \<longrightarrow>
      (\<exists>ctx. resolveScoringDecisionContext sd t = Some ctx \<and>
             dc_fielderCodes ctx = [] \<and> dc_fieldLocations ctx = [] \<and>
             dc_locationSource ctx = NoLocation \<and> dc_locationConfidence ctx = 0)"
  proof (intro impI, elim conjE)
    assume t: "parseFieldLocationsFromText t = []" and c: "shorthandCodes sd = []"
      and nb: "\<not> blankShorthand sd"
    from parsed[OF nb] obtain b where b: "parseScoringDecisionContext sd = Some b" ..
    from fields[OF b] c fallback t b show "\<exists>ctx. resolveScoringDecisionContext sd t = Some ctx \<and>
             dc_fielderCodes ctx = [] \<and> dc_fieldLocations ctx = [] \<and>
             dc_locationSource ctx = NoLocation \<and> dc_locationConfidence ctx = 0"
      by simp
  qed
  have blank: "parseFieldLocationsFromText t = [] \<and> blankShorthand sd \<longrightarrow>
      resolveScoringDecisionContext sd t = None"
    using fallback parseScoringDecisionContext_None[of sd] toStringValue_blank[of sd] by auto
  have range: "\<forall>c \<in> set (shorthandCodes sd). 1 \<le> c \<and> c \<le> 9"
    using shorthandCodes_range by blast
  have earliest: "parseFieldLocationsFromText t \<noteq> [] \<longrightarrow>
      (\<exists>i c. (i, c) \<in> set (locationMatches (toLowerCase t)) \<and>
             (\<forall>(j, d) \<in> set (locationMatches (toLowerCase t)). i \<le> j) \<and>
             parseFieldLocationsFromText t = [mapFielderCodeToLocation c])"
    using earliest_mention by blast
  have ex: "map_option dc_fielderCodes
     (resolveScoringDecisionContext (Some ''HR 9 1RBI'')
        ''Example batter homered to center field, RBI (2-1 BKS).'') = Some [8]"
    by code_simp
  show ?thesis
    by (intro conjI text_wins scorecard none blank range fallback text_yields_location earliest ex)
qed

theorem resolveScoringDecisionContext_precedence_witness:
  "parseFieldLocationsFromText ''Poe,Ian flied out to rf (1-1 BK).'' \<noteq> [] \<and>
   map_option dc_locationSource
     (resolveScoringDecisionContext (Some ''F8'') ''Poe,Ian flied out to rf (1-1 BK).'')
     = Some FromText \<and>
   map_option dc_fielderCodes
     (resolveScoringDecisionContext (Some ''F8'') ''Poe,Ian flied out to rf (1-1 BK).'')
     = Some [9] \<and>
   parseFieldLocationsFromText ''Doe,John struck out.'' = [] \<and>
   shorthandCodes (Some ''643 DP'') = [6, 4, 3] \<and>
   map_option dc_fielderCodes
     (resolveScoringDecisionContext (Some ''643 DP'') ''Doe,John struck out.'') = Some [6, 4, 3] \<and>
   map_option dc_locationSource
     (resolveScoringDecisionContext (Some ''643 DP'') ''Doe,John struck out.'') = Some Scorecard \<and>
   shorthandCodes (Some ''F8'') = [] \<and> \<not> blankShorthand (Some ''F8'') \<and>
   map_option dc_fielderCodes
     (resolveScoringDecisionContext (Some ''F8'') ''Doe,John struck out.'') = Some [] \<and>
   map_option dc_locationSource
     (resolveScoringDecisionContext (Some ''F8'') ''Doe,John struck out.'') = Some NoLocation \<and>
   blankShorthand (Some '' - '') \<and>
   resolveScoringDecisionContext (Some '' - '') ''Doe,John struck out.'' = None"
proof -
  have loc: "parseFieldLocationsFromText ''Poe,Ian flied out to rf (1-1 BK).'' =
               [mapFielderCodeToLocation 9]"
    by code_simp
  have noloc: "parseFieldLocationsFromText ''Doe,John struck out.'' = []"
    by code_simp
  have codes: "shorthandCodes (Some ''643 DP'') = [6, 4, 3]" "shorthandCodes (Some ''F8'') = []"
    by code_simp+
  have blank: "\<not> blankShorthand (Some ''F8'')" "blankShorthand (Some '' - '')"
    by code_simp+
  note a = resolveScoringDecisionContext_precedence[of "''Poe,Ian flied out to rf (1-1 BK).''"
         "Some ''F8''", THEN conjunct1]
  note b = resolveScoringDecisionContext_precedence[of "''Doe,John struck out.''"
         "Some ''643 DP''", THEN conjunct2, THEN conjunct1]
  note c = resolveScoringDecisionContext_precedence[of "''Doe,John struck out.''"
         "Some ''F8''", THEN conjunct2, THEN conjunct2, THEN conjunct1]
  note d = resolveScoringDecisionContext_precedence[of "''Doe,John struck out.''"
         "Some '' - ''", THEN conjunct2, THEN conjunct2, THEN conjunct2, THEN conjunct1]
  from a b c d loc noloc codes blank
  show ?thesis by (auto simp: mapFielderCodeToLocation_def)
qed

text \<open>
  The claim as stated fails for a play text without a location and no shorthand: there
  is no resolved context, hence no \<open>locationSource = none\<close> in it. And a text that
  contains \<open>homered to center field\<close> after an earlier location resolves to the earlier
  one: to third base (5) in the second example, not to center field.
\<close>

theorem resolveScoringDecisionContext_counterexample:
  "parseFieldLocationsFromText ''Smith walked.'' = [] \<and>
   resolveScoringDecisionContext None ''Smith walked.'' = None \<and>
   map_option dc_fielderCodes
     (resolveScoringDecisionContext (Some ''HR 9 1RBI'')
        ''Lane advanced to 3b; Roe homered to center field.'') = Some [5]"
  by code_simp


section \<open>The player registry\<close>

lemma uniqueId_loop_result:
  "uniqueId_loop b keys i \<notin> set keys \<and> (\<exists>k\<ge>i. uniqueId_loop b keys i = suffixed b k)"
proof (induction b keys i rule: uniqueId_loop.induct)
  case (1 baseId keys index)
  show ?case
  proof (cases "suffixed baseId index \<in> set keys")
    case True
    have ih: "uniqueId_loop baseId keys (Suc index) \<notin> set keys \<and>
        (\<exists>k\<ge>Suc index. uniqueId_loop baseId keys (Suc index) = suffixed baseId k)"
      by (rule 1) (rule True)
    then obtain k where "Suc index \<le> k" "uniqueId_loop baseId keys (Suc index) = suffixed baseId k"
      by blast
    then have "index \<le> k \<and> uniqueId_loop baseId keys (Suc index) = suffixed baseId k" by simp
    then have "\<exists>k\<ge>index. uniqueId_loop baseId keys (Suc index) = suffixed baseId k" by blast
    with ih True show ?thesis by (subst (1 2) uniqueId_loop.simps) simp
  next
    case False
    then show ?thesis by (subst (1 2) uniqueId_loop.simps) auto
  qed
qed

lemma uniqueId_result:
  "uniqueId b al \<notin> fst ` set al \<and>
   (uniqueId b al = b \<or> (\<exists>k\<ge>2. uniqueId b al = suffixed b k)) \<and>
   (b \<notin> fst ` set al \<longrightarrow> uniqueId b al = b)"
  using uniqueId_loop_result[of b "map fst al" 2] by (auto simp: uniqueId_def)

lemma baseIdFor_nonempty: "baseIdFor sd nm j \<noteq> []"
  by (cases sd) (simp_all add: baseIdFor_def Let_def)

lemma uniqueId_nonempty: "b \<noteq> [] \<Longrightarrow> uniqueId b al \<noteq> []"
  using uniqueId_result[of b al] by (auto simp: suffixed_def)

lemma map_of_update_dom: "map_of (AList.update k v al) k' \<noteq> None \<longleftrightarrow> k' = k \<or> map_of al k' \<noteq> None"
  by (simp add: update_conv')

lemma grown_refl: "grown p p"
  by (simp add: grown_def)

lemma grown_trans: "grown p q \<Longrightarrow> grown q r \<Longrightarrow> grown p r"
  by (auto simp: grown_def)

lemma grown_mergeInto: "grown pl (mergeInto pl sd j p)"
  by (auto simp: grown_def mergeInto_def pushNew_def Let_def split: option.splits)

lemma mergeInto_holds:
  "(\<forall>n. j = Some n \<longrightarrow> n \<in> set (jerseyNumbers (mergeInto pl sd j p))) \<and>
   (\<forall>pos. p = Some pos \<and> pos \<noteq> [] \<longrightarrow> pos \<in> set (positions (mergeInto pl sd j p))) \<and>
   sd \<in> set (sides (mergeInto pl sd j p))"
  by (auto simp: mergeInto_def pushNew_def Let_def split: option.splits)

lemma register_cases:
  assumes "registry_inv reg"
  shows "(map_of (idBySideAndName reg) (sideNameKey sd nm) = None \<and>
            register reg sd nm j p = registerFresh reg sd nm j p) \<or>
         (\<exists>pid pl. map_of (idBySideAndName reg) (sideNameKey sd nm) = Some pid \<and> pid \<noteq> [] \<and>
            map_of (playersById reg) pid = Some pl \<and>
            register reg sd nm j p =
              (pid, reg\<lparr>playersById := AList.update pid (mergeInto pl sd j p) (playersById reg)\<rparr>))"
proof (cases "map_of (idBySideAndName reg) (sideNameKey sd nm)")
  case None
  then show ?thesis by (simp add: register_def)
next
  case (Some pid)
  with assms obtain pl where "pid \<noteq> []" "map_of (playersById reg) pid = Some pl"
    by (auto simp: registry_inv_def)
  with Some show ?thesis by (simp add: register_def)
qed

lemma register_inv:
  assumes "registry_inv reg"
  shows "registry_inv (snd (register reg sd nm j p))"
  using register_cases[OF assms, of sd nm j p]
proof (elim disjE conjE exE)
  assume a: "map_of (idBySideAndName reg) (sideNameKey sd nm) = None"
    and r: "register reg sd nm j p = registerFresh reg sd nm j p"
  have ne: "uniqueId (baseIdFor sd nm j) (playersById reg) \<noteq> []"
    by (rule uniqueId_nonempty[OF baseIdFor_nonempty])
  show ?thesis
    using assms ne
    unfolding r registry_inv_def registerFresh_def Let_def
    by (auto simp: update_conv')
next
  fix pid pl
  assume "map_of (idBySideAndName reg) (sideNameKey sd nm) = Some pid" "pid \<noteq> []"
    "map_of (playersById reg) pid = Some pl"
    and r: "register reg sd nm j p =
              (pid, reg\<lparr>playersById := AList.update pid (mergeInto pl sd j p) (playersById reg)\<rparr>)"
  show ?thesis
    using assms unfolding r registry_inv_def by (auto simp: update_conv')
qed

lemma register_index_after:
  assumes "registry_inv reg"
  shows "map_of (idBySideAndName (snd (register reg sd nm j p))) (sideNameKey sd nm) =
           Some (fst (register reg sd nm j p))"
  using register_cases[OF assms, of sd nm j p]
  by (auto simp: registerFresh_def Let_def update_conv')

lemma register_index_kept:
  assumes "registry_inv reg" and "map_of (idBySideAndName reg) k = Some pid"
  shows "map_of (idBySideAndName (snd (register reg sd nm j p))) k = Some pid"
  using register_cases[OF assms(1), of sd nm j p] assms(2)
  by (auto simp: registerFresh_def Let_def update_conv')

lemma register_index_dom:
  assumes "registry_inv reg"
  shows "dom (map_of (idBySideAndName (snd (register reg sd nm j p)))) =
           insert (sideNameKey sd nm) (dom (map_of (idBySideAndName reg)))"
  using register_cases[OF assms, of sd nm j p]
  by (auto simp: registerFresh_def Let_def update_conv')

lemma register_existing:
  assumes "registry_inv reg" and "map_of (idBySideAndName reg) (sideNameKey sd nm) = Some pid"
  shows "fst (register reg sd nm j p) = pid \<and>
         map fst (playersById (snd (register reg sd nm j p))) = map fst (playersById reg) \<and>
         idBySideAndName (snd (register reg sd nm j p)) = idBySideAndName reg \<and>
         (\<exists>pl. map_of (playersById reg) pid = Some pl \<and>
               map_of (playersById (snd (register reg sd nm j p))) pid = Some (mergeInto pl sd j p))"
  using register_cases[OF assms(1), of sd nm j p] assms(2)
  by (auto simp: update_conv' update_keys map_of_eq_None_iff[symmetric]
           simp del: map_of_eq_None_iff)

lemma register_fresh:
  assumes "registry_inv reg" and "map_of (idBySideAndName reg) (sideNameKey sd nm) = None"
  shows "fst (register reg sd nm j p) = uniqueId (baseIdFor sd nm j) (playersById reg) \<and>
         map fst (playersById (snd (register reg sd nm j p))) =
           map fst (playersById reg) @ [fst (register reg sd nm j p)]"
  using register_cases[OF assms(1), of sd nm j p] assms(2)
    uniqueId_result[of "baseIdFor sd nm j" "playersById reg"]
  by (auto simp: registerFresh_def Let_def update_keys)

lemma register_grows:
  assumes "registry_inv reg" and "map_of (playersById reg) pid = Some pl"
  shows "\<exists>pl'. map_of (playersById (snd (register reg sd nm j p))) pid = Some pl' \<and> grown pl pl'"
  using register_cases[OF assms(1), of sd nm j p]
proof (elim disjE conjE exE)
  assume r: "register reg sd nm j p = registerFresh reg sd nm j p"
  have "uniqueId (baseIdFor sd nm j) (playersById reg) \<notin> fst ` set (playersById reg)"
    using uniqueId_result by blast
  moreover have "pid \<in> fst ` set (playersById reg)"
    using assms(2) by (metis map_of_eq_None_iff option.distinct(1))
  ultimately have "pid \<noteq> uniqueId (baseIdFor sd nm j) (playersById reg)" by blast
  then show ?thesis
    using assms(2) unfolding r registerFresh_def Let_def
    by (auto simp: update_conv' grown_refl)
next
  fix pid0 pl0
  assume e: "map_of (playersById reg) pid0 = Some pl0"
    and r: "register reg sd nm j p =
              (pid0, reg\<lparr>playersById := AList.update pid0 (mergeInto pl0 sd j p) (playersById reg)\<rparr>)"
  show ?thesis
    using assms(2) e unfolding r
    by (cases "pid = pid0") (auto simp: update_conv' grown_refl grown_mergeInto)
qed

lemma registerAll_Cons:
  "registerAll reg (c # cs) =
     (fst (register reg (fst c) (fst (snd c)) (fst (snd (snd c))) (snd (snd (snd c)))) #
        fst (registerAll (snd (register reg (fst c) (fst (snd c)) (fst (snd (snd c))) (snd (snd (snd c))))) cs),
      snd (registerAll (snd (register reg (fst c) (fst (snd c)) (fst (snd (snd c))) (snd (snd (snd c))))) cs))"
  by (cases c) (auto simp: Let_def split: prod.splits)

lemma registerAll_length: "length (fst (registerAll reg cs)) = length cs"
  by (induction cs arbitrary: reg) (simp_all add: registerAll_Cons)

lemma registerAll_append:
  "registerAll reg (cs @ ds) =
     (fst (registerAll reg cs) @ fst (registerAll (snd (registerAll reg cs)) ds),
      snd (registerAll (snd (registerAll reg cs)) ds))"
  by (induction cs arbitrary: reg) (simp_all add: registerAll_Cons)

lemma registerAll_inv: "registry_inv reg \<Longrightarrow> registry_inv (snd (registerAll reg cs))"
  by (induction cs arbitrary: reg) (simp_all add: registerAll_Cons register_inv)

lemma registerAll_index_dom:
  "registry_inv reg \<Longrightarrow>
   dom (map_of (idBySideAndName (snd (registerAll reg cs)))) =
     dom (map_of (idBySideAndName reg)) \<union> callKey ` set cs"
proof (induction cs arbitrary: reg)
  case Nil
  then show ?case by simp
next
  case (Cons c cs)
  show ?case
    unfolding registerAll_Cons snd_conv
    by (subst Cons.IH) (auto simp: register_inv Cons.prems register_index_dom callKey_def)
qed

lemma registerAll_same_key:
  "registry_inv reg \<Longrightarrow> map_of (idBySideAndName reg) k = Some pid \<Longrightarrow> m < length cs \<Longrightarrow>
   callKey (cs ! m) = k \<Longrightarrow> fst (registerAll reg cs) ! m = pid"
proof (induction cs arbitrary: reg m)
  case Nil
  then show ?case by simp
next
  case (Cons c cs)
  show ?case
  proof (cases m)
    case 0
    with Cons.prems show ?thesis
      by (simp add: registerAll_Cons callKey_def register_existing)
  next
    case (Suc m')
    with Cons.prems have "fst (registerAll
        (snd (register reg (fst c) (fst (snd c)) (fst (snd (snd c))) (snd (snd (snd c))))) cs) ! m' = pid"
      by (intro Cons.IH) (simp_all add: register_inv register_index_kept)
    with Suc show ?thesis by (simp add: registerAll_Cons)
  qed
qed

lemma registerAll_same_id:
  "registry_inv reg \<Longrightarrow> i < j \<Longrightarrow> j < length cs \<Longrightarrow> callKey (cs ! i) = callKey (cs ! j) \<Longrightarrow>
   fst (registerAll reg cs) ! i = fst (registerAll reg cs) ! j"
proof (induction cs arbitrary: reg i j)
  case Nil
  then show ?case by simp
next
  case (Cons c cs)
  let ?r = "register reg (fst c) (fst (snd c)) (fst (snd (snd c))) (snd (snd (snd c)))"
  from Cons.prems obtain j' where j: "j = Suc j'" by (cases j) auto
  show ?case
  proof (cases i)
    case 0
    have "fst (registerAll (snd ?r) cs) ! j' = fst ?r"
    proof (rule registerAll_same_key)
      show "registry_inv (snd ?r)" by (rule register_inv[OF Cons.prems(1)])
      show "map_of (idBySideAndName (snd ?r)) (callKey c) = Some (fst ?r)"
        unfolding callKey_def by (rule register_index_after[OF Cons.prems(1)])
      show "j' < length cs" using Cons.prems j by simp
      show "callKey (cs ! j') = callKey c" using Cons.prems 0 j by simp
    qed
    with 0 j show ?thesis by (simp add: registerAll_Cons)
  next
    case (Suc i')
    have "fst (registerAll (snd ?r) cs) ! i' = fst (registerAll (snd ?r) cs) ! j'"
      using Cons.prems Suc j by (intro Cons.IH) (simp_all add: register_inv)
    with Suc j show ?thesis by (simp add: registerAll_Cons)
  qed
qed

lemma registerAll_grows:
  "registry_inv reg \<Longrightarrow> map_of (playersById reg) pid = Some pl \<Longrightarrow>
   \<exists>pl'. map_of (playersById (snd (registerAll reg cs))) pid = Some pl' \<and> grown pl pl'"
proof (induction cs arbitrary: reg pl)
  case Nil
  then show ?case by (auto simp: grown_refl)
next
  case (Cons c cs)
  let ?r = "register reg (fst c) (fst (snd c)) (fst (snd (snd c))) (snd (snd (snd c)))"
  from register_grows[OF Cons.prems] obtain pl1 where
    p1: "map_of (playersById (snd ?r)) pid = Some pl1" "grown pl pl1" by blast
  from Cons.IH[OF register_inv[OF Cons.prems(1)] p1(1)] obtain pl2 where
    "map_of (playersById (snd (registerAll (snd ?r) cs))) pid = Some pl2" "grown pl1 pl2"
    by blast
  with p1 show ?case by (auto simp: registerAll_Cons intro: grown_trans)
qed

lemma createPlayerRegistry_inv: "registry_inv createPlayerRegistry"
  by (simp add: registry_inv_def createPlayerRegistry_def)

lemma same_side_and_name_key:
  "fst c = fst d \<Longrightarrow> normalizeName (Some (fst (snd c))) = normalizeName (Some (fst (snd d))) \<Longrightarrow>
   callKey c = callKey d"
  by (simp add: callKey_def sideNameKey_def)

text \<open>
  Claim C7. In any sequence of \<open>register\<close> calls on a fresh registry, two calls with
  the same side and the same normalized name return the same identifier. A registered
  player's record only grows under further calls: identifier and names stay, and the
  sides, jersey numbers and positions seen so far are kept. Registering a (side, name)
  that is already known creates no entry and leaves the call's jersey number and
  position in the player's record. Registering an unknown one returns an identifier not
  used before: \<open>side:jerseyOrNA:slug(name)\<close> itself when that is free, and otherwise
  that text followed by \<open>:k\<close> for a number \<open>k\<close> from 2 on.
\<close>

theorem player_registry_invariant:
  "(\<forall>i j. i < length calls \<and> j < length calls \<and> fst (calls ! i) = fst (calls ! j) \<and>
          normalizeName (Some (fst (snd (calls ! i)))) =
            normalizeName (Some (fst (snd (calls ! j)))) \<longrightarrow>
          fst (registerAll createPlayerRegistry calls) ! i =
            fst (registerAll createPlayerRegistry calls) ! j) \<and>
   (\<forall>pid pl. map_of (playersById (snd (registerAll createPlayerRegistry calls))) pid = Some pl \<longrightarrow>
      (\<exists>pl'. map_of (playersById (snd (registerAll createPlayerRegistry (calls @ later)))) pid
               = Some pl' \<and> grown pl pl')) \<and>
   (sideNameKey sd nm \<in> callKey ` set calls \<longrightarrow>
      map fst (playersById (snd (register (snd (registerAll createPlayerRegistry calls))
                                    sd nm jersey position))) =
        map fst (playersById (snd (registerAll createPlayerRegistry calls))) \<and>
      (\<exists>pl. map_of (playersById (snd (register (snd (registerAll createPlayerRegistry calls))
                                          sd nm jersey position)))
                (fst (register (snd (registerAll createPlayerRegistry calls))
                        sd nm jersey position)) = Some pl \<and>
            (\<forall>n. jersey = Some n \<longrightarrow> n \<in> set (jerseyNumbers pl)) \<and>
            (\<forall>pos. position = Some pos \<and> pos \<noteq> [] \<longrightarrow> pos \<in> set (positions pl)) \<and>
            sd \<in> set (sides pl))) \<and>
   (sideNameKey sd nm \<notin> callKey ` set calls \<longrightarrow>
      fst (register (snd (registerAll createPlayerRegistry calls)) sd nm jersey position)
        \<notin> fst ` set (playersById (snd (registerAll createPlayerRegistry calls))) \<and>
      (fst (register (snd (registerAll createPlayerRegistry calls)) sd nm jersey position)
         = baseIdFor sd nm jersey \<or>
       (\<exists>k\<ge>2. fst (register (snd (registerAll createPlayerRegistry calls)) sd nm jersey position)
                 = suffixed (baseIdFor sd nm jersey) k)) \<and>
      (baseIdFor sd nm jersey
         \<notin> fst ` set (playersById (snd (registerAll createPlayerRegistry calls))) \<longrightarrow>
       fst (register (snd (registerAll createPlayerRegistry calls)) sd nm jersey position)
         = baseIdFor sd nm jersey))"
proof -
  define reg where "reg = snd (registerAll createPlayerRegistry calls)"
  have inv: "registry_inv reg"
    unfolding reg_def by (rule registerAll_inv[OF createPlayerRegistry_inv])
  have dom: "dom (map_of (idBySideAndName reg)) = callKey ` set calls"
    unfolding reg_def
    by (subst registerAll_index_dom[OF createPlayerRegistry_inv])
       (simp add: createPlayerRegistry_def)
  have same: "\<forall>i j. i < length calls \<and> j < length calls \<and> fst (calls ! i) = fst (calls ! j) \<and>
          normalizeName (Some (fst (snd (calls ! i)))) =
            normalizeName (Some (fst (snd (calls ! j)))) \<longrightarrow>
          fst (registerAll createPlayerRegistry calls) ! i =
            fst (registerAll createPlayerRegistry calls) ! j"
  proof (intro allI impI)
    fix i j
    assume a: "i < length calls \<and> j < length calls \<and> fst (calls ! i) = fst (calls ! j) \<and>
          normalizeName (Some (fst (snd (calls ! i)))) =
            normalizeName (Some (fst (snd (calls ! j))))"
    then have ij: "i < length calls" "j < length calls" by blast+
    from a have "callKey (calls ! i) = callKey (calls ! j)"
      by (intro same_side_and_name_key) blast+
    then have k: "callKey (calls ! i) = callKey (calls ! j)" "callKey (calls ! j) = callKey (calls ! i)"
      by simp_all
    consider "i < j" | "j < i" | "i = j" by linarith
    then show "fst (registerAll createPlayerRegistry calls) ! i =
            fst (registerAll createPlayerRegistry calls) ! j"
    proof cases
      case 1
      show ?thesis
        by (rule registerAll_same_id[OF createPlayerRegistry_inv 1 ij(2) k(1)])
    next
      case 2
      show ?thesis
        by (rule registerAll_same_id[OF createPlayerRegistry_inv 2 ij(1) k(2), symmetric])
    next
      case 3
      then show ?thesis by simp
    qed
  qed
  have grow: "\<forall>pid pl. map_of (playersById reg) pid = Some pl \<longrightarrow>
      (\<exists>pl'. map_of (playersById (snd (registerAll createPlayerRegistry (calls @ later)))) pid
               = Some pl' \<and> grown pl pl')"
    using registerAll_grows[OF inv, of _ _ later]
    by (simp add: registerAll_append reg_def)
  have existing: "sideNameKey sd nm \<in> callKey ` set calls \<longrightarrow>
      map fst (playersById (snd (register reg sd nm jersey position))) = map fst (playersById reg) \<and>
      (\<exists>pl. map_of (playersById (snd (register reg sd nm jersey position)))
                (fst (register reg sd nm jersey position)) = Some pl \<and>
            (\<forall>n. jersey = Some n \<longrightarrow> n \<in> set (jerseyNumbers pl)) \<and>
            (\<forall>pos. position = Some pos \<and> pos \<noteq> [] \<longrightarrow> pos \<in> set (positions pl)) \<and>
            sd \<in> set (sides pl))"
  proof
    assume "sideNameKey sd nm \<in> callKey ` set calls"
    with dom obtain pid where pid: "map_of (idBySideAndName reg) (sideNameKey sd nm) = Some pid"
      by blast
    from register_existing[OF inv pid, of jersey position] obtain pl where
      e: "fst (register reg sd nm jersey position) = pid"
         "map fst (playersById (snd (register reg sd nm jersey position))) = map fst (playersById reg)"
         "map_of (playersById (snd (register reg sd nm jersey position))) pid =
            Some (mergeInto pl sd jersey position)"
      by blast
    from e mergeInto_holds[of jersey pl sd position]
    show "map fst (playersById (snd (register reg sd nm jersey position))) = map fst (playersById reg) \<and>
      (\<exists>pl. map_of (playersById (snd (register reg sd nm jersey position)))
                (fst (register reg sd nm jersey position)) = Some pl \<and>
            (\<forall>n. jersey = Some n \<longrightarrow> n \<in> set (jerseyNumbers pl)) \<and>
            (\<forall>pos. position = Some pos \<and> pos \<noteq> [] \<longrightarrow> pos \<in> set (positions pl)) \<and>
            sd \<in> set (sides pl))"
      by simp
  qed
  have fresh: "sideNameKey sd nm \<notin> callKey ` set calls \<longrightarrow>
      fst (register reg sd nm jersey position) \<notin> fst ` set (playersById reg) \<and>
      (fst (register reg sd nm jersey position) = baseIdFor sd nm jersey \<or>
       (\<exists>k\<ge>2. fst (register reg sd nm jersey position) = suffixed (baseIdFor sd nm jersey) k)) \<and>
      (baseIdFor sd nm jersey \<notin> fst ` set (playersById reg) \<longrightarrow>
       fst (register reg sd nm jersey position) = baseIdFor sd nm jersey)"
  proof
    assume "sideNameKey sd nm \<notin> callKey ` set calls"
    with dom have none: "map_of (idBySideAndName reg) (sideNameKey sd nm) = None"
      by blast
    from register_fresh[OF inv none, of jersey position]
    have "fst (register reg sd nm jersey position) =
            uniqueId (baseIdFor sd nm jersey) (playersById reg)"
      by blast
    with uniqueId_result[of "baseIdFor sd nm jersey" "playersById reg"]
    show "fst (register reg sd nm jersey position) \<notin> fst ` set (playersById reg) \<and>
      (fst (register reg sd nm jersey position) = baseIdFor sd nm jersey \<or>
       (\<exists>k\<ge>2. fst (register reg sd nm jersey position) = suffixed (baseIdFor sd nm jersey) k)) \<and>
      (baseIdFor sd nm jersey \<notin> fst ` set (playersById reg) \<longrightarrow>
       fst (register reg sd nm jersey position) = baseIdFor sd nm jersey)"
      by simp
  qed
  show ?thesis
    by (intro conjI same grow[unfolded reg_def] existing[unfolded reg_def] fresh[unfolded reg_def])
qed

theorem player_registry_invariant_witness:
  "0 < length example_calls \<and> 2 < length example_calls \<and>
   fst (example_calls ! 0) = fst (example_calls ! 2) \<and>
   normalizeName (Some (fst (snd (example_calls ! 0)))) =
     normalizeName (Some (fst (snd (example_calls ! 2)))) \<and>
   fst (registerAll createPlayerRegistry example_calls) ! 0 =
     fst (registerAll createPlayerRegistry example_calls) ! 2 \<and>
   fst (registerAll createPlayerRegistry example_calls) =
     [''away:7:rowan-kelly'', ''away:7:rowan-kelly:2'', ''away:7:rowan-kelly'']"
proof -
  have n: "0 < length example_calls" "2 < length example_calls"
    by (simp_all add: example_calls_def)
  have s: "fst (example_calls ! 0) = fst (example_calls ! 2)"
    by (simp add: example_calls_def)
  have k: "normalizeName (Some (fst (snd (example_calls ! 0)))) =
     normalizeName (Some (fst (snd (example_calls ! 2))))"
    by code_simp
  have ids: "fst (registerAll createPlayerRegistry example_calls) =
     [''away:7:rowan-kelly'', ''away:7:rowan-kelly:2'', ''away:7:rowan-kelly'']"
    by code_simp
  from player_registry_invariant[of example_calls, THEN conjunct1, rule_format, of 0 2]
       n s k ids
  show ?thesis by simp
qed


section \<open>The scorekeeping unifier\<close>





















section \<open>The keys of the extracted plays\<close>

lemma digit_char_not_bar: "d < 10 \<Longrightarrow> digit_char d \<noteq> CHR ''|''"
proof -
  assume "d < 10"
  then have "digit_val (digit_char d) = d" by (rule digit_val_digit_char)
  moreover have "digit_val CHR ''|'' = 76" by (simp add: digit_val_def)
  ultimately show ?thesis using \<open>d < 10\<close> by auto
qed

lemma nat_to_string_no_bar: "CHR ''|'' \<notin> set (nat_to_string n)"
proof (induction n rule: nat_to_string.induct)
  case (1 n)
  show ?case
  proof (cases "n < 10")
    case True
    then show ?thesis
      by (subst nat_to_string.simps) (simp add: digit_char_not_bar[symmetric])
  next
    case False
    with 1 have "CHR ''|'' \<notin> set (nat_to_string (n div 10))" by simp
    moreover have "digit_char (n mod 10) \<noteq> CHR ''|''" by (rule digit_char_not_bar) simp
    ultimately show ?thesis using False
      by (subst nat_to_string.simps) auto
  qed
qed

lemma split_at_last_bar:
  assumes "a @ ''|'' @ x = b @ ''|'' @ y" "CHR ''|'' \<notin> set x" "CHR ''|'' \<notin> set y"
  shows "a = b \<and> x = y"
proof -
  have r: "rev x @ CHR ''|'' # rev a = rev y @ CHR ''|'' # rev b"
    using arg_cong[OF assms(1), of rev] by simp
  have "takeWhile (\<lambda>c. c \<noteq> CHR ''|'') (rev x @ CHR ''|'' # rev a) = rev x"
    using assms(2) by (subst takeWhile_append2) auto
  moreover have "takeWhile (\<lambda>c. c \<noteq> CHR ''|'') (rev y @ CHR ''|'' # rev b) = rev y"
    using assms(3) by (subst takeWhile_append2) auto
  ultimately have "rev x = rev y" using r by simp
  then have "x = y" by simp
  with assms(1) show ?thesis by simp
qed

lemma hashed_eq:
  assumes "s @ ''|'' @ nat_to_string m = t @ ''|'' @ nat_to_string n"
  shows "s = t \<and> m = n"
proof -
  from split_at_last_bar[OF assms nat_to_string_no_bar nat_to_string_no_bar]
  have "s = t" "nat_to_string m = nat_to_string n" by simp_all
  then show ?thesis using nat_to_string_inj by blast
qed

lemma hashedStrings_length: "length (hashedStrings sigs) = length sigs"
  by (simp add: hashedStrings_def)

lemma hashedStrings_nth:
  "k < length sigs \<Longrightarrow>
   hashedStrings sigs ! k = sigs ! k @ ''|'' @ nat_to_string (occurrenceAt sigs k)"
  by (simp add: hashedStrings_def)

lemma count_list_take_mono:
  assumes "i < j" "j < length sigs" "sigs ! i = x"
  shows "count_list (take i sigs) x < count_list (take j sigs) x"
proof -
  from assms(1) obtain d where j: "j = Suc i + d"
    using less_iff_Suc_add by auto
  have i: "i < length sigs" using assms(1,2) by simp
  have "take j sigs = take (Suc i) sigs @ take d (drop (Suc i) sigs)"
    unfolding j by (rule take_add)
  also have "take (Suc i) sigs = take i sigs @ [x]"
    using take_Suc_conv_app_nth[OF i] assms(3) by simp
  finally show ?thesis by simp
qed

lemma hashedStrings_distinct: "distinct (hashedStrings sigs)"
proof -
  have ne: "hashedStrings sigs ! i \<noteq> hashedStrings sigs ! j"
    if "i < j" "j < length sigs" for i j
  proof
    assume eq: "hashedStrings sigs ! i = hashedStrings sigs ! j"
    from that have i: "i < length sigs" by simp
    from eq have both: "sigs ! i = sigs ! j \<and> occurrenceAt sigs i = occurrenceAt sigs j"
      unfolding hashedStrings_nth[OF i] hashedStrings_nth[OF that(2)] by (rule hashed_eq)
    then have e: "sigs ! i = sigs ! j" and o: "occurrenceAt sigs i = occurrenceAt sigs j"
      by simp_all
    have lt: "count_list (take i sigs) (sigs ! i) < count_list (take j sigs) (sigs ! i)"
      by (rule count_list_take_mono[OF that refl])
    have "count_list (take i sigs) (sigs ! i) = count_list (take j sigs) (sigs ! i)"
      using o unfolding occurrenceAt_def e[symmetric] by simp
    with lt show False by simp
  qed
  show ?thesis
    unfolding distinct_conv_nth hashedStrings_length
  proof (intro allI impI)
    fix i j assume "i < length sigs" "j < length sigs" "i \<noteq> j"
    then consider "i < j" | "j < i" by linarith
    then show "hashedStrings sigs ! i \<noteq> hashedStrings sigs ! j"
    proof cases
      case 1
      then show ?thesis using ne[of i j] \<open>j < length sigs\<close> by simp
    next
      case 2
      then show ?thesis using ne[of j i] \<open>i < length sigs\<close> by metis
    qed
  qed
qed

lemma hashedStrings_snoc:
  "hashedStrings (sigs @ [s]) =
     hashedStrings sigs @ [s @ ''|'' @ nat_to_string (Suc (count_list sigs s))]"
  by (simp add: hashedStrings_def occurrenceAt_def nth_append)


lemma occurrences_snoc:
  "(occurrences sigs)(s \<mapsto> Suc (case occurrences sigs s of None \<Rightarrow> 0 | Some n \<Rightarrow> n)) =
   occurrences (sigs @ [s])"
  by (rule ext) (simp add: occurrences_def)

lemma occurrences_count:
  "(case occurrences sigs s of None \<Rightarrow> 0 | Some n \<Rightarrow> n) = count_list sigs s"
  by (simp add: occurrences_def)

lemma emitPlay_signature:
  "eventSignature dec (last (ex_events (emitPlay dec digest title inningFromTitle currentHalf parsed st))) =
       buildSignature dec (orElse (pr_inning parsed) inningFromTitle)
         (orElse (pr_half parsed) currentHalf) (pr_text parsed) (pr_batter parsed)
         (pr_pitcher parsed) (pr_outs parsed) (pr_scoringDecision parsed)"
  by (simp add: emitPlay_def Let_def eventSignature_def)

lemma emitPlay_inv:
  assumes keys: "map lp_key (ex_events st) =
                 map digest (hashedStrings (map (eventSignature dec) (ex_events st)))"
    and occ: "ex_occurrenceBySignature st = occurrences (map (eventSignature dec) (ex_events st))"
  shows "map lp_key (ex_events (emitPlay dec digest title inningFromTitle currentHalf parsed st)) =
         map digest (hashedStrings (map (eventSignature dec)
           (ex_events (emitPlay dec digest title inningFromTitle currentHalf parsed st)))) \<and>
         ex_occurrenceBySignature (emitPlay dec digest title inningFromTitle currentHalf parsed st) =
         occurrences (map (eventSignature dec)
           (ex_events (emitPlay dec digest title inningFromTitle currentHalf parsed st)))"
proof -
  define sg where "sg = buildSignature dec (orElse (pr_inning parsed) inningFromTitle)
         (orElse (pr_half parsed) currentHalf) (pr_text parsed) (pr_batter parsed)
         (pr_pitcher parsed) (pr_outs parsed) (pr_scoringDecision parsed)"
  define sigs where "sigs = map (eventSignature dec) (ex_events st)"
  define e where "e = last (ex_events (emitPlay dec digest title inningFromTitle currentHalf parsed st))"
  have ev: "ex_events (emitPlay dec digest title inningFromTitle currentHalf parsed st) =
            ex_events st @ [e]"
    by (simp add: e_def emitPlay_def Let_def)
  have sig: "eventSignature dec e = sg"
    unfolding sg_def e_def by (rule emitPlay_signature)
  have key: "lp_key e = digest (sg @ ''|'' @ nat_to_string (Suc (count_list sigs sg)))"
    by (simp add: e_def emitPlay_def Let_def sg_def[symmetric] occ sigs_def[symmetric]
          occurrences_count)
  have o: "ex_occurrenceBySignature (emitPlay dec digest title inningFromTitle currentHalf parsed st) =
           occurrences (sigs @ [sg])"
    by (simp add: emitPlay_def Let_def sg_def[symmetric] occ sigs_def[symmetric] occurrences_snoc)
  show ?thesis
    unfolding ev o
    using keys key
    by (simp add: sig sigs_def[symmetric] hashedStrings_snoc)
qed


lemma fold_keeps:
  "(\<And>x s. P s \<Longrightarrow> P (f x s)) \<Longrightarrow> P s \<Longrightarrow> P (fold f xs s)"
  by (induction xs arbitrary: s) simp_all

lemma emitPlay_keysAssigned:
  "keysAssigned dec digest st \<Longrightarrow>
   keysAssigned dec digest (emitPlay dec digest title inningFromTitle currentHalf parsed st)"
  unfolding keysAssigned_def using emitPlay_inv by blast

lemma extractRow_keysAssigned:
  "keysAssigned dec digest (fst acc) \<Longrightarrow>
   keysAssigned dec digest (fst (extractRow dec digest title inningFromTitle table row acc))"
  by (simp add: extractRow_def emitPlay_keysAssigned split: option.splits ParsedRow.splits)

lemma extractTable_keysAssigned:
  "keysAssigned dec digest st \<Longrightarrow>
   keysAssigned dec digest (extractTable dec digest title inningFromTitle table st)"
  unfolding extractTable_def
  by (rule fold_keeps[where P = "\<lambda>acc. keysAssigned dec digest (fst acc)"])
     (simp_all add: extractRow_keysAssigned)

lemma extractSection_keysAssigned:
  "keysAssigned dec digest st \<Longrightarrow> keysAssigned dec digest (extractSection dec digest sec st)"
  unfolding extractSection_def
  by (simp add: fold_keeps[where P = "keysAssigned dec digest"] extractTable_keysAssigned)

lemma extract_keysAssigned:
  "keysAssigned dec digest
     (fold (extractSection dec digest) secs
        \<lparr>ex_events = [], ex_occurrenceBySignature = Map.empty, ex_order = 0\<rparr>)"
proof (rule fold_keeps[where P = "keysAssigned dec digest"])
  show "keysAssigned dec digest \<lparr>ex_events = [], ex_occurrenceBySignature = Map.empty, ex_order = 0\<rparr>"
    by (simp add: keysAssigned_def hashedStrings_def occurrences_def)
qed (rule extractSection_keysAssigned)

text \<open>
  Claim C5. The key of every extracted play is the hash of its normalised signature
  (inning, half, play text, batter, pitcher, outs, scoring decision) followed by the
  number of times that signature has occurred so far. Within one extraction the hashed
  strings are pairwise different, whether two rows have the same signature or not; so
  the keys are pairwise different wherever the hash does not collide on them. The
  extracted plays, with their keys, depend on nothing but the sections of the payload:
  extracting again from an unchanged payload gives the same sequence of keys.
\<close>

theorem play_keys_stable_and_distinct:
  "map lp_key (extractLivePlayEvents dec digest stats) =
     map digest (hashedStrings (map (eventSignature dec) (extractLivePlayEvents dec digest stats))) \<and>
   distinct (hashedStrings (map (eventSignature dec) (extractLivePlayEvents dec digest stats))) \<and>
   (inj_on digest
      (set (hashedStrings (map (eventSignature dec) (extractLivePlayEvents dec digest stats)))) \<longrightarrow>
    distinct (map lp_key (extractLivePlayEvents dec digest stats))) \<and>
   (ls_sections other = ls_sections stats \<longrightarrow>
    extractLivePlayEvents dec digest other = extractLivePlayEvents dec digest stats)"
proof -
  have keys: "map lp_key (extractLivePlayEvents dec digest stats) =
     map digest (hashedStrings (map (eventSignature dec) (extractLivePlayEvents dec digest stats)))"
    using extract_keysAssigned[of dec digest "ls_sections stats"]
    by (simp add: keysAssigned_def extractLivePlayEvents_def)
  have d: "distinct (hashedStrings (map (eventSignature dec) (extractLivePlayEvents dec digest stats)))"
    by (rule hashedStrings_distinct)
  have inj: "inj_on digest
      (set (hashedStrings (map (eventSignature dec) (extractLivePlayEvents dec digest stats)))) \<longrightarrow>
    distinct (map lp_key (extractLivePlayEvents dec digest stats))"
    unfolding keys using d by (simp add: distinct_map)
  have same: "ls_sections other = ls_sections stats \<longrightarrow>
    extractLivePlayEvents dec digest other = extractLivePlayEvents dec digest stats"
    by (simp add: extractLivePlayEvents_def)
  show ?thesis by (intro conjI keys d inj same)
qed

theorem play_keys_stable_and_distinct_witness:
  "map lp_key (extractLivePlayEvents no_entities identity_digest (example_stats ''10:00'')) =
     [''3|top|miller grounded out to short|miller|adams|1||1'',
      ''3|top|miller grounded out to short|miller|adams|2||1'',
      ''3|top|miller grounded out to short|miller|adams|2||2''] \<and>
   distinct (map lp_key (extractLivePlayEvents no_entities identity_digest (example_stats ''10:00''))) \<and>
   extractLivePlayEvents no_entities identity_digest (example_stats ''10:05'') =
     extractLivePlayEvents no_entities identity_digest (example_stats ''10:00'')"
proof -
  have k: "map lp_key (extractLivePlayEvents no_entities identity_digest (example_stats ''10:00'')) =
     [''3|top|miller grounded out to short|miller|adams|1||1'',
      ''3|top|miller grounded out to short|miller|adams|2||1'',
      ''3|top|miller grounded out to short|miller|adams|2||2'']"
    by code_simp
  have i: "inj_on identity_digest A" for A
    by (simp add: inj_on_def identity_digest_def)
  have s: "ls_sections (example_stats ''10:05'') = ls_sections (example_stats ''10:00'')"
    by (simp add: example_stats_def)
  note t = play_keys_stable_and_distinct[of no_entities identity_digest "example_stats ''10:00''"
         "example_stats ''10:05''"]
  have d: "distinct (map lp_key (extractLivePlayEvents no_entities identity_digest
             (example_stats ''10:00'')))"
    by (rule t[THEN conjunct2, THEN conjunct2, THEN conjunct1, rule_format, OF i])
  have e: "extractLivePlayEvents no_entities identity_digest (example_stats ''10:05'') =
     extractLivePlayEvents no_entities identity_digest (example_stats ''10:00'')"
    by (rule t[THEN conjunct2, THEN conjunct2, THEN conjunct2, rule_format, OF s])
  show ?thesis by (intro conjI k d e)
qed


end
